theory Spec2Isabelle
  imports Main "HOL-Library.Sublist"
begin

section \<open>Strings as the JavaScript code uses them\<close>

text \<open>
  Strings are \<open>char list\<close>. The model covers ASCII text: \<open>toLowerCase\<close> maps
  \<open>A\<close>..\<open>Z\<close> to \<open>a\<close>..\<open>z\<close> and leaves every other character alone, the
  regular-expression class \<open>\s\<close> is space, tab, line feed, vertical tab, form feed and
  carriage return, and the length of a string is its number of characters. On ASCII text
  these are the lower-casing, the white space and the \<open>length\<close> (in UTF-16 code units) of
  JavaScript; outside ASCII JavaScript also lower-cases other letters, has further
  white-space characters and counts code units. Text outside ASCII (the Hindi words of the
  search queries) is written as its UTF-8 bytes and is only handed on. A statement whose
  truth depends on case, white space or length is therefore made for ASCII text, which
  \<open>isAscii\<close> recognises. \<open>str_includes s pat\<close> is \<open>s.includes(pat)\<close>.
\<close>

fun str_includes :: "string \<Rightarrow> string \<Rightarrow> bool" where
  "str_includes [] pat = (pat = [])"
| "str_includes (c # cs) pat = (prefix pat (c # cs) \<or> str_includes cs pat)"

definition lowerChar :: "char \<Rightarrow> char" where
  "lowerChar c =
     (case map_of (zip ''ABCDEFGHIJKLMNOPQRSTUVWXYZ'' ''abcdefghijklmnopqrstuvwxyz'') c of
        None \<Rightarrow> c
      | Some d \<Rightarrow> d)"

definition toLowerCase :: "string \<Rightarrow> string" where
  "toLowerCase s = map lowerChar s"

definition isSpace :: "char \<Rightarrow> bool" where
  "isSpace c = (c \<in> {CHR '' '', CHR 0x09, CHR 0x0A, CHR 0x0B, CHR 0x0C, CHR 0x0D})"

definition isAscii :: "string \<Rightarrow> bool" where
  "isAscii s = list_all (\<lambda>c. of_char c < (128 :: nat)) s"

text \<open>
  \<open>splitWs [] s\<close> is \<open>s.split(/\s+/)\<close>: the pieces between maximal runs of white space,
  with an empty first or last piece when \<open>s\<close> starts or ends with white space.
\<close>

function splitWs :: "string \<Rightarrow> string \<Rightarrow> string list" where
  "splitWs cur [] = [cur]"
| "splitWs cur (c # cs) =
     (if isSpace c then cur # splitWs [] (dropWhile isSpace cs) else splitWs (cur @ [c]) cs)"
  by pat_completeness auto
termination
  by (relation "measure (\<lambda>(cur, s). length s)") (auto simp: length_dropWhile_le less_Suc_eq_le)

text \<open>
  \<open>replaceAll pat rep s\<close> is \<open>s.replace(/pat/g, rep)\<close> for a literal, non-empty
  pattern: matches are found left to right and do not overlap.
\<close>

function replaceAll :: "string \<Rightarrow> string \<Rightarrow> string \<Rightarrow> string" where
  "replaceAll pat rep [] = []"
| "replaceAll pat rep (c # cs) =
     (if pat \<noteq> [] \<and> prefix pat (c # cs)
      then rep @ replaceAll pat rep (drop (length pat) (c # cs))
      else c # replaceAll pat rep cs)"
  by pat_completeness auto
termination
  by (relation "measure (\<lambda>(pat, rep, s). length s)") (auto simp: neq_Nil_conv)

text \<open>The helper \<open>decodeHtml\<close> of \<open>researchGuest\<close> (a missing string reads as the empty one).\<close>

definition decodeHtml :: "string \<Rightarrow> string" where
  "decodeHtml str =
     replaceAll ''&gt;'' ''>'' (replaceAll ''&lt;'' ''<'' (replaceAll ''&quot;'' [CHR 0x22]
       (replaceAll ''&amp;'' ''&'' (replaceAll ''&#39;'' [CHR 0x27] str))))"

section \<open>Video search: \<open>researchGuest\<close>\<close>

record Video =
  videoId :: string
  title :: string
  description :: string
  channelTitle :: string
  publishedAt :: int
  thumbnail :: string

text \<open>
  The relevance filter. \<open>nameParts\<close> are the pieces of the lower-cased name that are longer
  than two characters; \<open>firstName\<close> and \<open>lastName\<close> are the first and the last of them, or
  the empty string when there is none.
\<close>

definition nameParts :: "string \<Rightarrow> string list" where
  "nameParts guestName = filter (\<lambda>p. length p > 2) (splitWs [] (toLowerCase guestName))"

definition fullName :: "string \<Rightarrow> string" where
  "fullName guestName = toLowerCase guestName"

definition firstName :: "string \<Rightarrow> string" where
  "firstName guestName = (case nameParts guestName of [] \<Rightarrow> [] | p # ps \<Rightarrow> p)"

definition lastName :: "string \<Rightarrow> string" where
  "lastName guestName = (if nameParts guestName = [] then [] else last (nameParts guestName))"

definition vTitle :: "Video \<Rightarrow> string" where
  "vTitle v = toLowerCase (decodeHtml (title v))"

definition vDesc :: "Video \<Rightarrow> string" where
  "vDesc v = toLowerCase (decodeHtml (description v))"

definition vChannel :: "Video \<Rightarrow> string" where
  "vChannel v = toLowerCase (decodeHtml (channelTitle v))"

definition vAll :: "Video \<Rightarrow> string" where
  "vAll v = vTitle v @ '' '' @ vDesc v @ '' '' @ vChannel v"

definition isRelevant :: "string \<Rightarrow> Video \<Rightarrow> bool" where
  "isRelevant guestName v =
     (if str_includes (vAll v) (fullName guestName) then True
      else if lastName guestName \<noteq> [] \<and> str_includes (vTitle v) (lastName guestName) then True
      else if firstName guestName \<noteq> [] \<and> lastName guestName \<noteq> []
              \<and> str_includes (vAll v) (firstName guestName) \<and> str_includes (vAll v) (lastName guestName)
           then True
      else if str_includes (vChannel v) (lastName guestName) \<or> str_includes (vChannel v) (firstName guestName)
           then True
      else False)"



text \<open>
  One call of \<open>yt.search.list\<close>: the items of the response (each already read into the
  fields the loop copies), a response without items, or an exception with its message.
  The oracle \<open>yt\<close> takes the position of the query in the list, the query and
  \<open>maxResults\<close>. Dates are the millisecond values that \<open>new Date(publishedAt)\<close> gives.
\<close>

datatype search_response = Items "Video list" | NoItems | SearchFailed string

type_synonym yt_oracle = "nat \<Rightarrow> string \<Rightarrow> nat \<Rightarrow> search_response"

definition quoted :: "string \<Rightarrow> string" where
  "quoted g = CHR 0x22 # g @ [CHR 0x22]"

definition baseQueries :: "string \<Rightarrow> string list" where
  "baseQueries guestName =
     [quoted guestName @ '' interview'',
      quoted guestName @ '' podcast'',
      quoted guestName @ '' conversation'',
      quoted guestName @ '' talk show'',
      guestName @ '' interview full video'',
      guestName @ '' podcast episode'',
      quoted guestName @ CHR '' '' # [CHR 0xE0, CHR 0xA4, CHR 0x87, CHR 0xE0, CHR 0xA4, CHR 0x82,
        CHR 0xE0, CHR 0xA4, CHR 0x9F, CHR 0xE0, CHR 0xA4, CHR 0xB0, CHR 0xE0, CHR 0xA4, CHR 0xB5,
        CHR 0xE0, CHR 0xA5, CHR 0x8D, CHR 0xE0, CHR 0xA4, CHR 0xAF, CHR 0xE0, CHR 0xA5, CHR 0x82],
      quoted guestName @ CHR '' '' # [CHR 0xE0, CHR 0xA4, CHR 0xAA, CHR 0xE0, CHR 0xA5, CHR 0x89,
        CHR 0xE0, CHR 0xA4, CHR 0xA1, CHR 0xE0, CHR 0xA4, CHR 0x95, CHR 0xE0, CHR 0xA4, CHR 0xBE,
        CHR 0xE0, CHR 0xA4, CHR 0xB8, CHR 0xE0, CHR 0xA5, CHR 0x8D, CHR 0xE0, CHR 0xA4, CHR 0x9F]]"

definition proExtraQueries :: "string \<Rightarrow> string list" where
  "proExtraQueries guestName =
     [quoted guestName @ '' full episode'',
      quoted guestName @ '' keynote speech'',
      quoted guestName @ '' panel discussion'',
      quoted guestName @ '' QnA'',
      quoted guestName @ CHR '' '' # [CHR 0xE0, CHR 0xA4, CHR 0xAC, CHR 0xE0, CHR 0xA4, CHR 0xBE,
        CHR 0xE0, CHR 0xA4, CHR 0xA4, CHR 0xE0, CHR 0xA4, CHR 0x9A, CHR 0xE0, CHR 0xA5, CHR 0x80,
        CHR 0xE0, CHR 0xA4, CHR 0xA4]]"

definition queries :: "string \<Rightarrow> bool \<Rightarrow> string list" where
  "queries guestName isPro =
     (if isPro then baseQueries guestName @ proExtraQueries guestName else baseQueries guestName)"

definition maxResults :: "bool \<Rightarrow> nat" where
  "maxResults isPro = (if isPro then 50 else 20)"

text \<open>\<open>None\<close> is \<open>Infinity\<close>.\<close>

definition maxVideoCap :: "bool \<Rightarrow> nat option" where
  "maxVideoCap isPro = (if isPro then None else Some 100)"

definition maxQuotaErrors :: "string \<Rightarrow> bool \<Rightarrow> nat" where
  "maxQuotaErrors guestName isPro = (if isPro then length (queries guestName isPro) else 3)"

text \<open>
  The state of the query loop. \<open>issued\<close> is not a variable of the code: it records the
  queries for which \<open>yt.search.list\<close> was called, each with its position, in order.
\<close>

record search_state =
  allVideos :: "Video list"
  seenIds :: "string set"
  quotaErrors :: nat
  issued :: "(nat \<times> string) list"

definition isQuotaMessage :: "string \<Rightarrow> bool" where
  "isQuotaMessage msg =
     (str_includes msg ''quota'' \<or> str_includes msg ''Quota'' \<or> str_includes msg ''exceeded'')"

fun addItems :: "Video list \<Rightarrow> search_state \<Rightarrow> search_state" where
  "addItems [] st = st"
| "addItems (item # items) st =
     addItems items
       (if videoId item \<notin> seenIds st
        then st\<lparr>seenIds := insert (videoId item) (seenIds st), allVideos := allVideos st @ [item]\<rparr>
        else st)"

definition searchStep :: "yt_oracle \<Rightarrow> nat \<Rightarrow> nat \<Rightarrow> string \<Rightarrow> search_state \<Rightarrow> search_state" where
  "searchStep yt maxRes i query st =
     (let st' = st\<lparr>issued := issued st @ [(i, query)]\<rparr> in
      case yt i query maxRes of
        Items items \<Rightarrow> addItems items st'
      | NoItems \<Rightarrow> st'
      | SearchFailed msg \<Rightarrow>
          if isQuotaMessage msg then st'\<lparr>quotaErrors := quotaErrors st' + 1\<rparr> else st')"

definition capReached :: "nat option \<Rightarrow> nat \<Rightarrow> bool" where
  "capReached cap n = (case cap of None \<Rightarrow> False | Some c \<Rightarrow> n \<ge> c)"

fun searchLoop :: "yt_oracle \<Rightarrow> nat \<Rightarrow> nat option \<Rightarrow> nat \<Rightarrow> nat \<Rightarrow> string list \<Rightarrow> search_state
    \<Rightarrow> search_state" where
  "searchLoop yt maxRes cap maxQuota i [] st = st"
| "searchLoop yt maxRes cap maxQuota i (query # rest) st =
     (if capReached cap (length (allVideos st)) then st
      else if quotaErrors st \<ge> maxQuota then st
      else searchLoop yt maxRes cap maxQuota (Suc i) rest (searchStep yt maxRes i query st))"

definition initSearch :: search_state where
  "initSearch = \<lparr>allVideos = [], seenIds = {}, quotaErrors = 0, issued = []\<rparr>"

definition runSearch :: "yt_oracle \<Rightarrow> string \<Rightarrow> bool \<Rightarrow> search_state" where
  "runSearch yt guestName isPro =
     searchLoop yt (maxResults isPro) (maxVideoCap isPro) (maxQuotaErrors guestName isPro) 0
       (queries guestName isPro) initSearch"

text \<open>
  The result of \<open>researchGuest\<close>; a thrown \<open>Error\<close> is \<open>Inl\<close> of its message. The fields
  carry the prefix \<open>yt_\<close> because the report has fields of the same names.
\<close>

record yt_result =
  yt_guestName :: string
  yt_totalInterviewsFound :: nat
  yt_interviews :: "Video list"

definition MISSING_YOUTUBE_KEY :: string where
  "MISSING_YOUTUBE_KEY = ''YouTube API Key is missing. Please configure it in Settings.''"

definition QUOTA_EXHAUSTED :: string where
  "QUOTA_EXHAUSTED = ''QUOTA_EXHAUSTED: YouTube API daily quota exhausted. Resets at midnight Pacific Time (12:30 PM IST). Try again later or add a different API key in Settings.''"

text \<open>
  \<open>relevant.sort((a, b) => new Date(b.publishedAt) - new Date(a.publishedAt))\<close>: a stable
  sort, most recent first.
\<close>

definition sortByDate :: "Video list \<Rightarrow> Video list" where
  "sortByDate vs = sort_key (\<lambda>v. - publishedAt v) vs"

definition researchGuest :: "yt_oracle \<Rightarrow> string \<Rightarrow> string \<Rightarrow> string \<Rightarrow> bool \<Rightarrow> string + yt_result" where
  "researchGuest yt envYoutubeKey guestName youtubeApiKey isPro =
     (if youtubeApiKey = [] \<and> envYoutubeKey = [] then Inl MISSING_YOUTUBE_KEY
      else
        let st = runSearch yt guestName isPro in
        if quotaErrors st > 0 \<and> allVideos st = [] then Inl QUOTA_EXHAUSTED
        else
          let relevant = sortByDate (filter (isRelevant guestName) (allVideos st)) in
          Inr \<lparr>yt_guestName = guestName, yt_totalInterviewsFound = length relevant,
               yt_interviews = relevant\<rparr>)"

section \<open>Progress events\<close>

text \<open>
  A progress event is the pair of its \<open>step\<close> and \<open>status\<close>; the message text is left out.
  Every function of the pipeline is given the \<open>onProgress\<close> callback by \<open>deepResearch\<close>,
  so the model records every event.
\<close>

datatype step = Start | NameCheck | Youtube | Transcripts | GeminiVideo | AnalyzeVideos
  | WebSearch | Compile | Complete

datatype status = Active | Done | Error

type_synonym event = "step \<times> status"

section \<open>Transcripts: \<open>fetchTranscripts\<close>\<close>

text \<open>
  A transcript segment has a text and a language (empty when absent). An entry of the
  segment array may be \<open>null\<close> (\<open>None\<close>): reading a field of it raises a \<open>TypeError\<close>.
  The oracle is \<open>YoutubeTranscript.fetchTranscript(videoId, {lang})\<close>.
\<close>

record segment =
  seg_text :: string
  seg_lang :: string

type_synonym transcript_oracle = "string \<Rightarrow> string option \<Rightarrow> string + segment option list"

text \<open>
  A transcript record, from a transcript or from the model's analysis of the video
  (\<open>source\<close> is then \<open>gemini-video\<close>, and empty otherwise). The fields copied from the video
  carry the prefix \<open>t_\<close>.
\<close>

record TranscriptRecord =
  t_videoId :: string
  t_title :: string
  t_channelTitle :: string
  transcript :: string
  lang :: string
  source :: string

definition langs :: "string list" where
  "langs = [''en'', ''hi'', ''es'', ''pt'', ''fr'', ''de'', ''ja'', ''ko'', ''ar'', ''ru'', ''zh'']"

text \<open>The loop over the fallback languages, on the variables \<open>segments\<close> and \<open>lang\<close>.\<close>

fun langLoop :: "transcript_oracle \<Rightarrow> string \<Rightarrow> string list \<Rightarrow> segment option list \<times> string
    \<Rightarrow> segment option list \<times> string" where
  "langLoop ft vid [] sl = sl"
| "langLoop ft vid (tryLang # rest) (segments, lg) =
     (case ft vid (Some tryLang) of
        Inl err \<Rightarrow> langLoop ft vid rest (segments, lg)
      | Inr segs \<Rightarrow> if segs \<noteq> [] then (segs, tryLang) else langLoop ft vid rest (segs, lg))"

definition fetchSegments :: "transcript_oracle \<Rightarrow> string \<Rightarrow> segment option list \<times> string" where
  "fetchSegments ft vid =
     (case ft vid None of
        Inl err \<Rightarrow> langLoop ft vid langs ([], ''unknown'')
      | Inr segs \<Rightarrow>
          (case segs of
             [] \<Rightarrow> (segs, ''unknown'')
           | None # _ \<Rightarrow> langLoop ft vid langs (segs, ''unknown'')
           | Some s # _ \<Rightarrow> (segs, if seg_lang s \<noteq> [] then seg_lang s else ''auto'')))"

text \<open>\<open>segments.map(seg => seg.text)\<close>, which throws at a \<open>null\<close> entry.\<close>

fun segmentTexts :: "segment option list \<Rightarrow> string + string list" where
  "segmentTexts [] = Inr []"
| "segmentTexts (None # rest) = Inl ''TypeError: Cannot read properties of null''"
| "segmentTexts (Some s # rest) =
     (case segmentTexts rest of Inl err \<Rightarrow> Inl err | Inr ts \<Rightarrow> Inr (seg_text s # ts))"

fun joinSpace :: "string list \<Rightarrow> string" where
  "joinSpace [] = []"
| "joinSpace [t] = t"
| "joinSpace (t # u # ts) = t @ '' '' @ joinSpace (u # ts)"

function collapseWs :: "string \<Rightarrow> string" where
  "collapseWs [] = []"
| "collapseWs (c # cs) =
     (if isSpace c then CHR '' '' # collapseWs (dropWhile isSpace cs) else c # collapseWs cs)"
  by pat_completeness auto
termination
  by (relation "measure length") (auto simp: length_dropWhile_le less_Suc_eq_le)

definition trim :: "string \<Rightarrow> string" where
  "trim s = rev (dropWhile isSpace (rev (dropWhile isSpace s)))"

definition fullTextOf :: "string list \<Rightarrow> string" where
  "fullTextOf ts = trim (collapseWs (decodeHtml (joinSpace ts)))"

text \<open>
  One iteration of the loop of \<open>fetchTranscripts\<close>, up to the two \<open>push\<close> calls:
  \<open>Inr (Some t)\<close> when the transcript is accepted, \<open>Inr None\<close> when the video goes to
  \<open>failed\<close>, \<open>Inl\<close> when an exception leaves the loop.
\<close>

definition fetchOne :: "transcript_oracle \<Rightarrow> Video \<Rightarrow> string + TranscriptRecord option" where
  "fetchOne ft video =
     (let (segments, lg) = fetchSegments ft (videoId video) in
      if segments \<noteq> [] then
        (case segmentTexts segments of
           Inl err \<Rightarrow> Inl err
         | Inr ts \<Rightarrow>
             let fullText = fullTextOf ts in
             if length fullText > 100
             then Inr (Some \<lparr>t_videoId = videoId video, t_title = title video,
                     t_channelTitle = channelTitle video, transcript = take 15000 fullText,
                     lang = lg, source = []\<rparr>)
             else Inr None)
      else Inr None)"

record transcripts_state =
  ft_results :: "TranscriptRecord list"
  ft_failed :: "Video list"
  ft_succeeded :: nat
  ft_events :: "event list"
  ft_thrown :: "string option"

fun fetchLoop :: "transcript_oracle \<Rightarrow> Video list \<Rightarrow> transcripts_state \<Rightarrow> transcripts_state" where
  "fetchLoop ft [] st = st"
| "fetchLoop ft (video # rest) st =
     (case fetchOne ft video of
        Inl err \<Rightarrow> st\<lparr>ft_thrown := Some err\<rparr>
      | Inr (Some t) \<Rightarrow>
          fetchLoop ft rest
            (st\<lparr>ft_results := ft_results st @ [t], ft_succeeded := ft_succeeded st + 1,
                ft_events := ft_events st @ [(Transcripts, Active)]\<rparr>)
      | Inr None \<Rightarrow>
          fetchLoop ft rest
            (st\<lparr>ft_failed := ft_failed st @ [video],
                ft_events := ft_events st @ [(Transcripts, Active)]\<rparr>))"

text \<open>
  \<open>fetchTranscripts\<close>: the final state of the loop. When \<open>ft_thrown\<close> is set the call
  throws; otherwise it returns \<open>ft_results\<close> and \<open>ft_failed\<close>.
\<close>

definition fetchTranscripts :: "transcript_oracle \<Rightarrow> Video list \<Rightarrow> transcripts_state" where
  "fetchTranscripts ft videos =
     fetchLoop ft videos
       \<lparr>ft_results = [], ft_failed = [], ft_succeeded = 0, ft_events = [], ft_thrown = None\<rparr>"

section \<open>Model-watched videos: \<open>analyzeVideosWithGemini\<close>\<close>

text \<open>
  \<open>model.generateContent\<close> for the video at a position, raced against the 30 second
  timeout: the text, or the message of the error.
\<close>

type_synonym video_model = "nat \<Rightarrow> Video \<Rightarrow> string + string"

definition MISSING_GEMINI_KEY :: string where
  "MISSING_GEMINI_KEY = ''Gemini API Key is missing. Please configure it in Settings.''"

text \<open>
  \<open>analyzeVideoWithGemini\<close>: \<open>createGeminiClient\<close> is called outside the \<open>try\<close>, so a
  missing key throws; every failure of the call itself gives \<open>null\<close>.
\<close>

definition analyzeVideoWithGemini :: "video_model \<Rightarrow> string \<Rightarrow> string \<Rightarrow> nat \<Rightarrow> Video
    \<Rightarrow> string + TranscriptRecord option" where
  "analyzeVideoWithGemini vm envGeminiKey geminiApiKey i video =
     (if geminiApiKey = [] \<and> envGeminiKey = [] then Inl MISSING_GEMINI_KEY
      else
        case vm i video of
          Inl err \<Rightarrow> Inr None
        | Inr analysis \<Rightarrow>
            if length analysis > 100
            then Inr (Some \<lparr>t_videoId = videoId video, t_title = title video,
                    t_channelTitle = channelTitle video, transcript = analysis,
                    lang = ''gemini-analyzed'', source = ''gemini-video''\<rparr>)
            else Inr None)"

text \<open>
  The state of both loops. \<open>g_calls\<close> is not a variable of the code: it records the
  positions (in \<open>videosToAnalyze\<close>) of the videos for which \<open>analyzeVideoWithGemini\<close> was
  called, in order.
\<close>

record gemini_state =
  results :: "TranscriptRecord list"
  consecutiveFailures :: nat
  g_events :: "event list"
  g_calls :: "nat list"
  g_thrown :: "string option"

type_synonym analyzer = "nat \<Rightarrow> Video \<Rightarrow> string + TranscriptRecord option"

text \<open>Free mode: one video at a time. The list is what is left of \<open>videosToAnalyze\<close> from \<open>i\<close> on.\<close>

fun freeLoop :: "analyzer \<Rightarrow> nat \<Rightarrow> nat \<Rightarrow> Video list \<Rightarrow> gemini_state \<Rightarrow> gemini_state" where
  "freeLoop an maxFail i [] st = st"
| "freeLoop an maxFail i (video # rest) st =
     (if consecutiveFailures st \<ge> maxFail
      then st\<lparr>g_events := g_events st @ [(GeminiVideo, Error)]\<rparr>
      else
        let st1 = st\<lparr>g_events := g_events st @ [(GeminiVideo, Active)], g_calls := g_calls st @ [i]\<rparr> in
        case an i video of
          Inl err \<Rightarrow> st1\<lparr>g_thrown := Some err\<rparr>
        | Inr (Some r) \<Rightarrow>
            freeLoop an maxFail (Suc i) rest (st1\<lparr>results := results st1 @ [r], consecutiveFailures := 0\<rparr>)
        | Inr None \<Rightarrow>
            freeLoop an maxFail (Suc i) rest (st1\<lparr>consecutiveFailures := consecutiveFailures st1 + 1\<rparr>))"

text \<open>
  Pro mode: batches of three, all calls of a batch issued together. \<open>Promise.all\<close> rejects
  with the first rejection. \<open>batchFold\<close> is the loop over \<open>batchResults\<close>, on the variables
  \<open>results\<close>, \<open>consecutiveFailures\<close> and \<open>batchFailed\<close>.
\<close>

definition batchSize :: nat where
  "batchSize = 3"

fun firstError :: "(string + 'a) list \<Rightarrow> string option" where
  "firstError [] = None"
| "firstError (Inl err # rs) = Some err"
| "firstError (Inr r # rs) = firstError rs"

fun batchFold :: "(string + TranscriptRecord option) list \<Rightarrow> TranscriptRecord list \<times> nat \<times> nat
    \<Rightarrow> TranscriptRecord list \<times> nat \<times> nat" where
  "batchFold [] acc = acc"
| "batchFold (Inr (Some r) # rs) (res, cf, batchFailed) = batchFold rs (res @ [r], 0, batchFailed)"
| "batchFold (_ # rs) (res, cf, batchFailed) = batchFold rs (res, cf, batchFailed + 1)"

text \<open>
  The calls of one batch, and the state after the loop over \<open>batchResults\<close> and the
  update of \<open>consecutiveFailures\<close> that follows it.
\<close>

definition batchOutcomes :: "analyzer \<Rightarrow> nat \<Rightarrow> Video list \<Rightarrow> (string + TranscriptRecord option) list" where
  "batchOutcomes an i batch = map (\<lambda>(j, video). an j video) (zip [i ..< i + length batch] batch)"

definition afterBatch :: "(string + TranscriptRecord option) list \<Rightarrow> nat \<Rightarrow> gemini_state \<Rightarrow> gemini_state" where
  "afterBatch batchResults batchLength st =
     (let (res, cf, batchFailed) = batchFold batchResults (results st, consecutiveFailures st, 0)
      in st\<lparr>results := res,
            consecutiveFailures := (if batchFailed = batchLength then cf + batchFailed else 0)\<rparr>)"

function proLoop :: "analyzer \<Rightarrow> nat \<Rightarrow> nat \<Rightarrow> Video list \<Rightarrow> gemini_state \<Rightarrow> gemini_state" where
  "proLoop an maxFail i vs st =
     (if vs = [] then st
      else if consecutiveFailures st \<ge> maxFail
      then st\<lparr>g_events := g_events st @ [(GeminiVideo, Error)]\<rparr>
      else
        let batch = take batchSize vs;
            st1 = st\<lparr>g_events := g_events st @ [(GeminiVideo, Active)],
                    g_calls := g_calls st @ [i ..< i + length batch]\<rparr>;
            batchResults = batchOutcomes an i batch
        in
        case firstError batchResults of
          Some err \<Rightarrow> st1\<lparr>g_thrown := Some err\<rparr>
        | None \<Rightarrow>
            proLoop an maxFail (i + batchSize) (drop batchSize vs)
              (afterBatch batchResults (length batch) st1))"
  by pat_completeness auto
termination
  by (relation "measure (\<lambda>(an, maxFail, i, vs, st). length vs)") (auto simp: batchSize_def)

declare proLoop.simps [simp del]

definition MAX_GEMINI_VIDEOS :: "Video list \<Rightarrow> bool \<Rightarrow> nat" where
  "MAX_GEMINI_VIDEOS videos isPro = (if isPro then length videos else 15)"

definition videosToAnalyze :: "Video list \<Rightarrow> bool \<Rightarrow> Video list" where
  "videosToAnalyze videos isPro = take (MAX_GEMINI_VIDEOS videos isPro) videos"


definition maxConsecutiveFailures :: "bool \<Rightarrow> nat" where
  "maxConsecutiveFailures isPro = (if isPro then 5 else 3)"

definition initGemini :: gemini_state where
  "initGemini = \<lparr>results = [], consecutiveFailures = 0, g_events = [], g_calls = [], g_thrown = None\<rparr>"

text \<open>
  \<open>analyzeVideosWithGemini\<close>: the final state of the loop. When \<open>g_thrown\<close> is set the call
  throws; otherwise it returns \<open>results\<close>.
\<close>

definition analyzeVideosWithGemini :: "analyzer \<Rightarrow> Video list \<Rightarrow> bool \<Rightarrow> gemini_state" where
  "analyzeVideosWithGemini an videos isPro =
     (if isPro
      then proLoop an (maxConsecutiveFailures isPro) 0 (videosToAnalyze videos isPro) initGemini
      else freeLoop an (maxConsecutiveFailures isPro) 0 (videosToAnalyze videos isPro) initGemini)"

section \<open>The orchestrator: \<open>deepResearch\<close>\<close>

text \<open>
  JavaScript values and objects, as far as the key lookup needs them. \<open>truthy\<close> is the
  conversion to a boolean.
\<close>

datatype js_value = JString string | JBoolean bool | JNumber int | JNull

type_synonym js_object = "string \<rightharpoonup> js_value"

fun truthy :: "js_value \<Rightarrow> bool" where
  "truthy (JString s) = (s \<noteq> [])"
| "truthy (JBoolean b) = b"
| "truthy (JNumber n) = (n \<noteq> 0)"
| "truthy JNull = False"

text \<open>\<open>obj.field || ''\<close>, for a field that holds a string when it is there.\<close>

definition stringField :: "js_object \<Rightarrow> string \<Rightarrow> string" where
  "stringField obj field = (case obj field of Some (JString s) \<Rightarrow> s | _ \<Rightarrow> [])"

text \<open>\<open>!!userKeys.hasCustomKey\<close>\<close>

definition isProOf :: "js_object \<Rightarrow> bool" where
  "isProOf userKeys = (case userKeys ''hasCustomKey'' of None \<Rightarrow> False | Some v \<Rightarrow> truthy v)"

record WebProfile =
  profile :: string
  w_source :: string
  sources :: "(string \<times> string) list"

text \<open>
  The services the run calls, each as the outcome of the call (\<open>Inl\<close> is the message of a
  thrown error): the model call of \<open>correctGuestName\<close>, the video search, the transcript
  provider, the model call of \<open>analyzeVideoWithGemini\<close>, \<open>deepAnalyzeTranscripts\<close> (by
  attempt number), \<open>analyzeVideoMetadata\<close>, \<open>webResearch\<close>, \<open>fetchWikipedia\<close> (which
  catches its own errors), and the two keys of the process environment (empty when unset).
\<close>

record services =
  nameModel :: "string \<Rightarrow> string + string"
  ytSearch :: yt_oracle
  fetchTranscript :: transcript_oracle
  videoModel :: video_model
  deepAnalyzeTranscripts :: "nat \<Rightarrow> string \<Rightarrow> TranscriptRecord list \<Rightarrow> string \<Rightarrow> string + string"
  analyzeVideoMetadata :: "string \<Rightarrow> Video list \<Rightarrow> string \<Rightarrow> string + string"
  webResearch :: "string \<Rightarrow> string + WebProfile option"
  fetchWikipedia :: "string \<Rightarrow> string option"
  YOUTUBE_API_KEY :: string
  GEMINI_API_KEY :: string

text \<open>
  \<open>deepResearch\<close> is one function in the code; here each of its steps is a function
  (\<open>stageName\<close>, \<open>stageYoutube\<close>, \<open>stageTranscripts\<close>, \<open>stageGemini\<close>,
  \<open>stageSynthesis\<close>, \<open>stageFallback\<close>, \<open>stageWeb\<close>) that returns the values the step
  assigns and the events it sends, and \<open>deepResearchBody\<close> runs them in order.
\<close>

definition correctGuestName :: "(string \<Rightarrow> string + string) \<Rightarrow> string \<Rightarrow> string + string" where
  "correctGuestName nm name =
     (case nm name of
        Inl err \<Rightarrow> Inl err
      | Inr text \<Rightarrow>
          let corrected = trim text in
          if length corrected > 60 \<or> CHR 0x0A \<in> set corrected then Inr name else Inr corrected)"

definition stageName :: "services \<Rightarrow> string \<Rightarrow> string \<times> event list" where
  "stageName sv guestName =
     (case correctGuestName (nameModel sv) guestName of
        Inr corrected \<Rightarrow> (corrected, [(Start, Active), (NameCheck, Active), (NameCheck, Done)])
      | Inl err \<Rightarrow> (guestName, [(Start, Active), (NameCheck, Active), (NameCheck, Done)]))"

definition stageYoutube :: "services \<Rightarrow> string \<Rightarrow> string \<Rightarrow> bool \<Rightarrow> yt_result \<times> event list" where
  "stageYoutube sv searchName youtubeKey isPro =
     (case researchGuest (ytSearch sv) (YOUTUBE_API_KEY sv) searchName youtubeKey isPro of
        Inr ytResult \<Rightarrow> (ytResult, [(Youtube, Active), (Youtube, Done)])
      | Inl err \<Rightarrow>
          (\<lparr>yt_guestName = [], yt_totalInterviewsFound = 0, yt_interviews = []\<rparr>,
           [(Youtube, Active), (Youtube, Error)]))"

text \<open>Step 2: the transcripts, the videos without one, and the events.\<close>

definition stageTranscripts :: "services \<Rightarrow> Video list
    \<Rightarrow> TranscriptRecord list \<times> Video list \<times> event list" where
  "stageTranscripts sv interviews =
     (if interviews \<noteq> [] then
        let fs = fetchTranscripts (fetchTranscript sv) interviews in
        case ft_thrown fs of
          None \<Rightarrow>
            (ft_results fs, ft_failed fs,
             (Transcripts, Active) # ft_events fs @ [(Transcripts, Done)])
        | Some err \<Rightarrow>
            ([], interviews, (Transcripts, Active) # ft_events fs @ [(Transcripts, Error)])
      else ([], [], []))"

text \<open>Step 2b: the analyses, the positions of the videos called for, and the events.\<close>

definition stageGemini :: "services \<Rightarrow> string \<Rightarrow> bool \<Rightarrow> Video list
    \<Rightarrow> TranscriptRecord list \<times> nat list \<times> event list" where
  "stageGemini sv geminiKey isPro failedVideos =
     (if failedVideos \<noteq> [] then
        let gs = analyzeVideosWithGemini
                   (analyzeVideoWithGemini (videoModel sv) (GEMINI_API_KEY sv) geminiKey)
                   failedVideos isPro in
        case g_thrown gs of
          None \<Rightarrow>
            (results gs, g_calls gs, (GeminiVideo, Active) # g_events gs @ [(GeminiVideo, Done)])
        | Some err \<Rightarrow>
            ([], g_calls gs, (GeminiVideo, Active) # g_events gs @ [(GeminiVideo, Error)])
      else ([], [], []))"

text \<open>
  Step 3: the retry loop around \<open>deepAnalyzeTranscripts\<close>, over the attempts 1, 2, 3 that are
  left. \<open>sy_attempts\<close> and \<open>sy_delays\<close> are not variables of the code: they record the
  attempts made and the delays waited (milliseconds), in order.
\<close>

record synth_state =
  sy_videoAnalysis :: string
  sy_events :: "event list"
  sy_attempts :: "nat list"
  sy_delays :: "nat list"

definition isRateLimit :: "string \<Rightarrow> bool" where
  "isRateLimit msg =
     (str_includes msg ''429'' \<or> str_includes msg ''quota'' \<or> str_includes msg ''rate'')"

fun deepLoop :: "(nat \<Rightarrow> string + string) \<Rightarrow> nat list \<Rightarrow> synth_state \<Rightarrow> synth_state" where
  "deepLoop call [] st = st"
| "deepLoop call (attempt # rest) st =
     (let st1 = st\<lparr>sy_attempts := sy_attempts st @ [attempt]\<rparr> in
      case call attempt of
        Inr text \<Rightarrow>
          st1\<lparr>sy_videoAnalysis := text, sy_events := sy_events st1 @ [(AnalyzeVideos, Done)]\<rparr>
      | Inl msg \<Rightarrow>
          if attempt < 3 \<and> isRateLimit msg
          then deepLoop call rest
                 (st1\<lparr>sy_events := sy_events st1 @ [(AnalyzeVideos, Active)],
                      sy_delays := sy_delays st1 @ [attempt * 5000]\<rparr>)
          else if attempt = 3
          then deepLoop call rest (st1\<lparr>sy_events := sy_events st1 @ [(AnalyzeVideos, Error)]\<rparr>)
          else deepLoop call rest st1)"

definition stageSynthesis :: "services \<Rightarrow> string \<Rightarrow> string \<Rightarrow> TranscriptRecord list \<Rightarrow> synth_state" where
  "stageSynthesis sv searchName context allAnalyzedContent =
     (if allAnalyzedContent \<noteq> [] then
        deepLoop (\<lambda>attempt. deepAnalyzeTranscripts sv attempt searchName allAnalyzedContent context)
          [1, 2, 3]
          \<lparr>sy_videoAnalysis = [], sy_events = [(AnalyzeVideos, Active)], sy_attempts = [],
           sy_delays = []\<rparr>
      else \<lparr>sy_videoAnalysis = [], sy_events = [], sy_attempts = [], sy_delays = []\<rparr>)"

text \<open>The fallback: the final \<open>videoAnalysis\<close>, whether the metadata call was made, the events.\<close>

definition stageFallback :: "services \<Rightarrow> string \<Rightarrow> string \<Rightarrow> Video list \<Rightarrow> string
    \<Rightarrow> string \<times> bool \<times> event list" where
  "stageFallback sv searchName context interviews videoAnalysis =
     (if videoAnalysis = [] \<and> interviews \<noteq> [] then
        case analyzeVideoMetadata sv searchName interviews context of
          Inr text \<Rightarrow> (text, True, [(AnalyzeVideos, Active), (AnalyzeVideos, Done)])
        | Inl err \<Rightarrow> (videoAnalysis, True, [(AnalyzeVideos, Active), (AnalyzeVideos, Error)])
      else (videoAnalysis, False, []))"

definition stageWeb :: "services \<Rightarrow> string \<Rightarrow> WebProfile option \<times> string option \<times> event list" where
  "stageWeb sv searchName =
     (let web = (case webResearch sv searchName of Inr w \<Rightarrow> w | Inl err \<Rightarrow> None);
          wiki = (case fetchWikipedia sv searchName of
                    Some text \<Rightarrow> if text \<noteq> [] then Some text else None
                  | None \<Rightarrow> None)
      in (web, wiki, [(WebSearch, Active), (WebSearch, Done)]))"

definition combinedSummary :: "string \<Rightarrow> string option \<Rightarrow> WebProfile option \<Rightarrow> string" where
  "combinedSummary videoAnalysis wiki web =
     (if videoAnalysis \<noteq> []
      then [CHR 0x0A] @ ''=== VIDEO INTERVIEW ANALYSIS ==='' @ [CHR 0x0A] @ videoAnalysis @ [CHR 0x0A]
      else [])
     @ (case wiki of
          Some text \<Rightarrow> [CHR 0x0A] @ ''=== WIKIPEDIA ==='' @ [CHR 0x0A] @ text @ [CHR 0x0A]
        | None \<Rightarrow> [])
     @ (case web of
          Some w \<Rightarrow>
            if profile w \<noteq> []
            then [CHR 0x0A] @ ''=== WEB INTELLIGENCE ==='' @ [CHR 0x0A] @ profile w @ [CHR 0x0A]
            else []
        | None \<Rightarrow> [])"

text \<open>The report; its field \<open>guestName\<close> is \<open>r_guestName\<close> here.\<close>

record Report =
  r_guestName :: string
  originalQuery :: string
  correctedName :: "string option"
  totalInterviewsFound :: nat
  transcriptsAnalyzed :: nat
  interviews :: "Video list"
  topicsSummary :: string
  videoAnalysis :: string
  webProfile :: "WebProfile option"

text \<open>
  A run of \<open>deepResearch\<close>: the report it returns, the events it sent, and the values of
  its local variables \<open>transcripts\<close>, \<open>failedVideos\<close> and \<open>geminiAnalyzed\<close>, with the
  records of the calls made and the value of \<open>videoAnalysis\<close> after step 3
  (\<open>run_deepAnalysis\<close>). No exception leaves \<open>deepResearch\<close>: every call that can
  throw is inside a \<open>try\<close> or under \<open>Promise.allSettled\<close>. \<open>deepResearchBody\<close> is
  the function after its first three lines, which read the two keys and \<open>isPro\<close> from
  \<open>userKeys\<close>.
\<close>

record Run =
  run_report :: Report
  run_events :: "event list"
  run_transcripts :: "TranscriptRecord list"
  run_failedVideos :: "Video list"
  run_geminiAnalyzed :: "TranscriptRecord list"
  run_geminiCalls :: "nat list"
  run_deepAttempts :: "nat list"
  run_delays :: "nat list"
  run_deepAnalysis :: string
  run_metadataCalled :: bool

definition deepResearchBody :: "services \<Rightarrow> string \<Rightarrow> string \<Rightarrow> string \<Rightarrow> string \<Rightarrow> bool \<Rightarrow> Run" where
  "deepResearchBody sv guestName context geminiKey youtubeKey isPro =
     (let (searchName, ev0) = stageName sv guestName;
          (ytResult, ev1) = stageYoutube sv searchName youtubeKey isPro;
          (transcripts, failedVideos, ev2) = stageTranscripts sv (yt_interviews ytResult);
          (geminiAnalyzed, calls, ev2b) = stageGemini sv geminiKey isPro failedVideos;
          allAnalyzedContent = transcripts @ geminiAnalyzed;
          sy = stageSynthesis sv searchName context allAnalyzedContent;
          (va, metadataCalled, ev3b) =
             stageFallback sv searchName context (yt_interviews ytResult) (sy_videoAnalysis sy);
          (web, wiki, ev4) = stageWeb sv searchName;
          totalAnalyzed = length transcripts + length geminiAnalyzed
      in \<lparr>run_report =
            \<lparr>r_guestName = searchName,
             originalQuery = guestName,
             correctedName = (if searchName \<noteq> guestName then Some searchName else None),
             totalInterviewsFound = yt_totalInterviewsFound ytResult,
             transcriptsAnalyzed = totalAnalyzed,
             interviews = yt_interviews ytResult,
             topicsSummary = combinedSummary va wiki web,
             videoAnalysis = va,
             webProfile = web\<rparr>,
          run_events = ev0 @ ev1 @ ev2 @ ev2b @ sy_events sy @ ev3b @ ev4
             @ [(Compile, Active), (Compile, Done), (Complete, Done)],
          run_transcripts = transcripts,
          run_failedVideos = failedVideos,
          run_geminiAnalyzed = geminiAnalyzed,
          run_geminiCalls = calls,
          run_deepAttempts = sy_attempts sy,
          run_delays = sy_delays sy,
          run_deepAnalysis = sy_videoAnalysis sy,
          run_metadataCalled = metadataCalled\<rparr>)"

definition deepResearch :: "services \<Rightarrow> string \<Rightarrow> string \<Rightarrow> js_object \<Rightarrow> Run" where
  "deepResearch sv guestName context userKeys =
     (let geminiKey = stringField userKeys ''geminiApiKey'';
          youtubeKey = stringField userKeys ''youtubeApiKey'';
          isPro = isProOf userKeys
      in deepResearchBody sv guestName context geminiKey youtubeKey isPro)"

section \<open>The key lookup and the research route\<close>

text \<open>
  The user store of \<open>auth.js\<close>: the documents of the database (by id, for the ids that
  \<open>ObjectId.isValid\<close> accepts) or the values of the users file. A stored user is an
  object with any fields.
\<close>

record store =
  isMongo :: bool
  validObjectId :: "string \<Rightarrow> bool"
  findById :: "string \<rightharpoonup> js_object"
  fileUsers :: "js_object list"

text \<open>\<open>user.field || ''\<close>\<close>

definition orEmpty :: "js_value option \<Rightarrow> js_value" where
  "orEmpty v = (case v of None \<Rightarrow> JString [] | Some x \<Rightarrow> if truthy x then x else JString [])"

definition keysOf :: "js_object \<Rightarrow> js_object" where
  "keysOf user =
     [''youtubeApiKey'' \<mapsto> orEmpty (user ''youtubeApiKey''),
      ''geminiApiKey'' \<mapsto> orEmpty (user ''geminiApiKey'')]"

definition getApiKeys :: "store \<Rightarrow> string \<Rightarrow> js_object option" where
  "getApiKeys db userId =
     (if isMongo db then
        (if \<not> validObjectId db userId then None
         else case findById db userId of None \<Rightarrow> None | Some user \<Rightarrow> Some (keysOf user))
      else
        (case find (\<lambda>u. u ''id'' = Some (JString userId)) (fileUsers db) of
           None \<Rightarrow> None
         | Some user \<Rightarrow> Some (keysOf user)))"

definition getUserKeys :: "store \<Rightarrow> string \<Rightarrow> js_object" where
  "getUserKeys db userId = (case getApiKeys db userId of None \<Rightarrow> Map.empty | Some keys \<Rightarrow> keys)"

text \<open>
  The handler of \<open>POST /api/research-guest\<close>, after \<open>authMiddleware\<close> has set the user id:
  a 400 response, or the stream of progress events closed by the result. The handler's
  \<open>catch\<close>, which would close the stream with an \<open>error\<close> event, is never entered,
  since nothing is thrown by \<open>deepResearch\<close>.
\<close>

datatype route_response = BadRequest string | Stream "event list" Report

definition researchRoute :: "services \<Rightarrow> store \<Rightarrow> string \<Rightarrow> string \<Rightarrow> string \<Rightarrow> route_response" where
  "researchRoute sv db userId guestName context =
     (if guestName = [] then BadRequest ''Guest name is required''
      else
        let run = deepResearch sv guestName context (getUserKeys db userId)
        in Stream (run_events run) (run_report run))"

section \<open>The question generator: \<open>generateQuestions\<close>\<close>

definition MODELS :: "string list" where
  "MODELS = [''gemini-2.5-flash'', ''gemini-2.0-flash'', ''gemini-2.0-flash-lite'']"

text \<open>
  \<open>q_calls\<close> and \<open>q_waits\<close> are not variables of the code: they record the calls of
  \<open>generateContent\<close> (model and attempt) and the delays waited (milliseconds), in order.
  \<open>lastError\<close> holds the message of the last error.
\<close>

record 'j question_state =
  lastError :: "string option"
  q_calls :: "(string \<times> nat) list"
  q_waits :: "nat list"
  q_data :: "'j option"

definition fence :: string where
  "fence = [CHR 0x60, CHR 0x60, CHR 0x60]"

definition cleanResponse :: "string \<Rightarrow> string" where
  "cleanResponse responseText =
     (let c0 = trim responseText;
          c1 = (if prefix (fence @ ''json'') c0 then drop 7 c0
                else if prefix fence c0 then drop 3 c0 else c0);
          c2 = (if suffix fence c1 then take (length c1 - 3) c1 else c1)
      in trim c2)"

definition isRateLimited :: "string \<Rightarrow> bool" where
  "isRateLimited msg = (str_includes msg ''429'' \<or> str_includes msg ''quota'')"

text \<open>
  One pass through the body of the inner loop: the call, the cleaning and \<open>JSON.parse\<close>
  (the parameter \<open>parse\<close>), either of which may throw.
\<close>

definition tryOnce :: "(string \<Rightarrow> nat \<Rightarrow> string + string) \<Rightarrow> (string \<Rightarrow> string + 'j)
    \<Rightarrow> string \<Rightarrow> nat \<Rightarrow> string + 'j" where
  "tryOnce gen parse modelName attempt =
     (case gen modelName attempt of
        Inl msg \<Rightarrow> Inl msg
      | Inr responseText \<Rightarrow> parse (cleanResponse responseText))"

text \<open>The inner loop, over the attempts that are left; it stops when \<open>q_data\<close> is set.\<close>

fun attemptLoop :: "(string \<Rightarrow> nat \<Rightarrow> string + string) \<Rightarrow> (string \<Rightarrow> string + 'j)
    \<Rightarrow> string \<Rightarrow> nat list \<Rightarrow> 'j question_state \<Rightarrow> 'j question_state" where
  "attemptLoop gen parse modelName [] st = st"
| "attemptLoop gen parse modelName (attempt # rest) st =
     (let st1 = st\<lparr>q_calls := q_calls st @ [(modelName, attempt)]\<rparr> in
      case tryOnce gen parse modelName attempt of
        Inr parsed \<Rightarrow> st1\<lparr>q_data := Some parsed\<rparr>
      | Inl msg \<Rightarrow>
          attemptLoop gen parse modelName rest
            (if isRateLimited msg
             then st1\<lparr>lastError := Some msg, q_waits := q_waits st1 @ [20000]\<rparr>
             else st1\<lparr>lastError := Some msg\<rparr>))"

fun modelLoop :: "(string \<Rightarrow> nat \<Rightarrow> string + string) \<Rightarrow> (string \<Rightarrow> string + 'j)
    \<Rightarrow> string list \<Rightarrow> 'j question_state \<Rightarrow> 'j question_state" where
  "modelLoop gen parse [] st = st"
| "modelLoop gen parse (modelName # rest) st =
     (let st1 = attemptLoop gen parse modelName [0, 1] st in
      if q_data st1 \<noteq> None then st1 else modelLoop gen parse rest st1)"

datatype 'j questions_result = Success 'j | Failure string

definition failurePrefix :: string where
  "failurePrefix = ''All models failed. Last error: ''"

definition failureSuffix :: string where
  "failureSuffix =
     ''. Gemini API quota may be exhausted '' @ [CHR 0xE2, CHR 0x80, CHR 0x94]
     @ '' resets in ~1 minute for RPM limits, or at midnight PT for daily limits. You can add your own API key in Settings.''"

definition failureMessage :: "string option \<Rightarrow> string" where
  "failureMessage lastErr =
     failurePrefix
     @ (case lastErr of None \<Rightarrow> ''Unknown error''
        | Some msg \<Rightarrow> if msg \<noteq> [] then msg else ''Unknown error'')
     @ failureSuffix"

text \<open>
  \<open>generateQuestions\<close>: \<open>Inl\<close> is a thrown error (the missing key); otherwise the value
  returned, with the final state of the loops.
\<close>

definition generateQuestions :: "(string \<Rightarrow> nat \<Rightarrow> string + string) \<Rightarrow> (string \<Rightarrow> string + 'j)
    \<Rightarrow> string \<Rightarrow> string \<Rightarrow> string + ('j questions_result \<times> 'j question_state)" where
  "generateQuestions gen parse envGeminiKey geminiApiKey =
     (if geminiApiKey = [] \<and> envGeminiKey = [] then Inl MISSING_GEMINI_KEY
      else
        let st = modelLoop gen parse MODELS
                   \<lparr>lastError = None, q_calls = [], q_waits = [], q_data = None\<rparr>
        in case q_data st of
             Some parsed \<Rightarrow> Inr (Success parsed, st)
           | None \<Rightarrow> Inr (Failure (failureMessage (lastError st)), st))"

section \<open>Invariants used in the proofs\<close>

text \<open>The query loop keeps \<open>seenIds\<close> equal to the ids of \<open>allVideos\<close>, which are distinct.\<close>

definition dedupInv :: "search_state \<Rightarrow> bool" where
  "dedupInv st \<longleftrightarrow>
     seenIds st = set (map videoId (allVideos st)) \<and> distinct (map videoId (allVideos st))"

text \<open>
  The two loops of \<open>generateQuestions\<close> as one scan over the list of tries; used in the
  proofs only.
\<close>

fun scanTries :: "(string \<Rightarrow> nat \<Rightarrow> string + string) \<Rightarrow> (string \<Rightarrow> string + 'j)
    \<Rightarrow> (string \<times> nat) list \<Rightarrow> 'j question_state \<Rightarrow> 'j question_state" where
  "scanTries gen parse [] st = st"
| "scanTries gen parse ((modelName, attempt) # rest) st =
     (let st1 = st\<lparr>q_calls := q_calls st @ [(modelName, attempt)]\<rparr> in
      case tryOnce gen parse modelName attempt of
        Inr parsed \<Rightarrow> st1\<lparr>q_data := Some parsed\<rparr>
      | Inl msg \<Rightarrow>
          scanTries gen parse rest
            (if isRateLimited msg
             then st1\<lparr>lastError := Some msg, q_waits := q_waits st1 @ [20000]\<rparr>
             else st1\<lparr>lastError := Some msg\<rparr>))"

text \<open>Concrete services for the examples.\<close>

definition exampleGen :: "string \<Rightarrow> nat \<Rightarrow> string + string" where
  "exampleGen modelName attempt =
     (if modelName = ''gemini-2.5-flash'' then Inl ''429 Too Many Requests''
      else Inr (fence @ ''json{}'' @ fence))"

definition exampleParse :: "string \<Rightarrow> string + nat" where
  "exampleParse text = (if text = ''{}'' then Inr 0 else Inl ''SyntaxError'')"

text \<open>Concrete videos and analyzers for the examples.\<close>

definition exampleVideo :: Video where
  "exampleVideo = \<lparr>videoId = ''v1'', title = ''Jane Doe interview'', description = '''',
     channelTitle = ''Talks'', publishedAt = 0, thumbnail = ''''\<rparr>"

definition exampleRecord :: TranscriptRecord where
  "exampleRecord = \<lparr>t_videoId = ''v1'', t_title = ''Jane Doe interview'', t_channelTitle = ''Talks'',
     transcript = ''analysis'', lang = ''gemini-analyzed'', source = ''gemini-video''\<rparr>"

definition allFail :: analyzer where
  "allFail i video = Inr None"

definition firstSucceeds :: analyzer where
  "firstSucceeds i video = (if i = 0 then Inr (Some exampleRecord) else Inr None)"

text \<open>
  A response counts as a quota error when it is an exception whose message the loop takes
  for one; \<open>quotaCount\<close> is the number of quota errors among the responses to a list of
  issued queries.
\<close>

definition isQuotaResponse :: "search_response \<Rightarrow> bool" where
  "isQuotaResponse resp = (case resp of SearchFailed msg \<Rightarrow> isQuotaMessage msg | _ \<Rightarrow> False)"



definition quotaYt :: yt_oracle where
  "quotaYt i query maxRes = SearchFailed ''The request cannot be completed because you have exceeded your quota.''"

text \<open>An analyzer keeps the id when every record it returns carries the id of its video.\<close>

definition keepsId :: "analyzer \<Rightarrow> bool" where
  "keepsId an \<longleftrightarrow> (\<forall>i v r. an i v = Inr (Some r) \<longrightarrow> t_videoId r = videoId v)"

text \<open>
  Concrete services for the examples: in \<open>quotaServices\<close> every search call fails on the
  quota; in \<open>crashServices\<close> the search finds one video and the transcript provider
  returns an array that holds \<open>null\<close>.
\<close>

definition baseServices :: services where
  "baseServices =
     \<lparr>nameModel = (\<lambda>name. Inr name),
      ytSearch = (\<lambda>i query maxRes. NoItems),
      fetchTranscript = (\<lambda>vid lg. Inl ''Transcript is disabled on this video''),
      videoModel = (\<lambda>i video. Inl ''503 Service Unavailable''),
      deepAnalyzeTranscripts = (\<lambda>attempt name content context. Inl ''500 Internal error''),
      analyzeVideoMetadata = (\<lambda>name videos context. Inr ''Patterns across the videos''),
      webResearch = (\<lambda>name. Inr None),
      fetchWikipedia = (\<lambda>name. None),
      YOUTUBE_API_KEY = ''server-youtube-key'',
      GEMINI_API_KEY = ''server-gemini-key''\<rparr>"

definition quotaServices :: services where
  "quotaServices = baseServices\<lparr>ytSearch := quotaYt\<rparr>"

definition crashServices :: services where
  "crashServices =
     baseServices\<lparr>ytSearch := (\<lambda>i query maxRes. if i = 0 then Items [exampleVideo] else NoItems),
                  fetchTranscript := (\<lambda>vid lg. Inr [None])\<rparr>"

definition emptyStore :: store where
  "emptyStore = \<lparr>isMongo = False, validObjectId = (\<lambda>userId. False), findById = Map.empty,
     fileUsers = []\<rparr>"

text \<open>
  Services in which the search finds one video, no transcript can be fetched, and the
  model's analysis of the video is long enough to be accepted. In \<open>retryServices\<close> the
  first deep analysis fails on an error that is not a rate limit and the second succeeds;
  in \<open>rateServices\<close> the first two fail on rate limits and the third succeeds; in
  \<open>emptyTextServices\<close> the deep analysis and the metadata analysis both return the empty
  text.
\<close>

definition watchServices :: services where
  "watchServices =
     baseServices\<lparr>ytSearch := (\<lambda>i query maxRes. if i = 0 then Items [exampleVideo] else NoItems),
                  videoModel := (\<lambda>i video. Inr (replicate 101 CHR ''a''))\<rparr>"

definition retryServices :: services where
  "retryServices =
     watchServices\<lparr>deepAnalyzeTranscripts :=
       (\<lambda>attempt name content context.
          if attempt = 1 then Inl ''500 Internal error'' else Inr ''Deep analysis'')\<rparr>"

definition rateServices :: services where
  "rateServices =
     watchServices\<lparr>deepAnalyzeTranscripts :=
       (\<lambda>attempt name content context.
          if attempt = 1 then Inl ''429 Too Many Requests''
          else if attempt = 2 then Inl ''You exceeded your current quota''
          else Inr ''Deep analysis'')\<rparr>"

definition emptyTextServices :: services where
  "emptyTextServices =
     watchServices\<lparr>deepAnalyzeTranscripts := (\<lambda>attempt name content context. Inr []),
                   analyzeVideoMetadata := (\<lambda>name videos context. Inr [])\<rparr>"

definition watchedRecord :: TranscriptRecord where
  "watchedRecord = \<lparr>t_videoId = ''v1'', t_title = ''Jane Doe interview'', t_channelTitle = ''Talks'',
     transcript = replicate 101 CHR ''a'', lang = ''gemini-analyzed'', source = ''gemini-video''\<rparr>"

section \<open>Facts about strings\<close>

lemma str_includes_sublist: "str_includes s pat \<longleftrightarrow> sublist pat s"
  by (induction s) (auto simp: sublist_Cons_right)

lemma str_includes_Nil [simp]: "str_includes s []"
  by (simp add: str_includes_sublist)


lemma str_includes_appendI: "str_includes (ps @ xs @ ss) xs"
  by (simp add: str_includes_sublist)









section \<open>The relevance filter\<close>






text \<open>
  When no word of an ASCII name is longer than two characters both tokens are the empty
  string, which every channel name contains: every candidate is kept.
\<close>

lemma relevance_filter_short_name: "isAscii n \<Longrightarrow> nameParts n = [] \<Longrightarrow> isRelevant n v"
  by (simp add: isRelevant_def lastName_def)

lemma relevance_filter_short_name_example:
  "isRelevant ''Li Na''
       \<lparr>videoId = ''v2'', title = ''Cooking pasta'', description = ''A recipe'',
        channelTitle = ''Food'', publishedAt = 0, thumbnail = ''''\<rparr>"
  by code_simp

text \<open>
  The statements above stop at ASCII text. A name such as \<open>Le Na\<close> written with an acute
  accent on the \<open>e\<close> (the two bytes \<open>C3 A9\<close> here, one code unit in JavaScript) is not
  ASCII: JavaScript finds no word longer than two characters in it, and counting bytes
  finds one, so \<open>nameParts\<close> is not the token list of the code there.
\<close>

lemma relevance_filter_ascii_scope:
  "\<not> isAscii [CHR ''L'', CHR 0xC3, CHR 0xA9, CHR '' '', CHR ''N'', CHR ''a'']
   \<and> nameParts [CHR ''L'', CHR 0xC3, CHR 0xA9, CHR '' '', CHR ''N'', CHR ''a'']
       = [[CHR ''l'', CHR 0xC3, CHR 0xA9]]"
  by code_simp

section \<open>Deduplication by video id\<close>

lemma addItems_dedupInv: "dedupInv st \<Longrightarrow> dedupInv (addItems items st)"
  by (induction items arbitrary: st) (auto simp: dedupInv_def)

lemma searchStep_dedupInv: "dedupInv st \<Longrightarrow> dedupInv (searchStep yt mr i q st)"
proof -
  assume inv: "dedupInv st"
  then have inv': "dedupInv (st\<lparr>issued := issued st @ [(i, q)]\<rparr>)"
    by (simp add: dedupInv_def)
  show ?thesis
  proof (cases "yt i q mr")
    case (Items items)
    then show ?thesis using addItems_dedupInv [OF inv'] by (simp add: searchStep_def)
  next
    case NoItems
    then show ?thesis using inv' by (simp add: searchStep_def)
  next
    case (SearchFailed msg)
    then show ?thesis using inv by (simp add: searchStep_def dedupInv_def Let_def)
  qed
qed

lemma searchLoop_dedupInv: "dedupInv st \<Longrightarrow> dedupInv (searchLoop yt mr cap mq i qs st)"
  by (induction qs arbitrary: i st) (simp_all add: searchStep_dedupInv)

lemma initSearch_dedupInv: "dedupInv initSearch"
  by (simp add: dedupInv_def initSearch_def)

lemma distinct_ids_filter: "distinct (map videoId vs) \<Longrightarrow> distinct (map videoId (filter P vs))"
  by (simp add: distinct_map_filter)

lemma distinct_ids_sortByDate: "distinct (map videoId (sortByDate vs)) = distinct (map videoId vs)"
  by (simp add: sortByDate_def distinct_map)

lemma researchGuest_distinct:
  "researchGuest yt ek g k p = Inr r \<Longrightarrow> distinct (map videoId (yt_interviews r))"
proof -
  assume r: "researchGuest yt ek g k p = Inr r"
  have "dedupInv (runSearch yt g p)"
    unfolding runSearch_def by (rule searchLoop_dedupInv [OF initSearch_dedupInv])
  then have "distinct (map videoId (allVideos (runSearch yt g p)))"
    by (simp add: dedupInv_def)
  then have "distinct (map videoId (sortByDate (filter (isRelevant g) (allVideos (runSearch yt g p)))))"
    by (simp add: distinct_ids_sortByDate distinct_ids_filter)
  with r show ?thesis
    by (auto simp: researchGuest_def Let_def split: if_splits)
qed

lemma stageYoutube_distinct: "distinct (map videoId (yt_interviews (fst (stageYoutube sv n k p))))"
  by (auto simp: stageYoutube_def researchGuest_distinct split: sum.splits)

lemma deepResearchBody_interviews:
  "interviews (run_report (deepResearchBody sv g c gk yk p)) =
     yt_interviews (fst (stageYoutube sv (fst (stageName sv g)) yk p))"
  by (simp add: deepResearchBody_def Let_def split: prod.splits)

text \<open>
  C7. Whatever the queries are (the same query may occur twice) and whatever the search
  returns, the video ids accumulated by the query loop are pairwise distinct; and the ids of
  the videos of every report are pairwise distinct.
\<close>

theorem dedup_by_video_id:
  "distinct (map videoId (allVideos (searchLoop yt mr cap mq i qs initSearch)))
   \<and> distinct (map videoId (interviews (run_report (deepResearch sv g c keys))))"
proof
  have "dedupInv (searchLoop yt mr cap mq i qs initSearch)"
    by (rule searchLoop_dedupInv [OF initSearch_dedupInv])
  then show "distinct (map videoId (allVideos (searchLoop yt mr cap mq i qs initSearch)))"
    by (simp add: dedupInv_def)
next
  show "distinct (map videoId (interviews (run_report (deepResearch sv g c keys))))"
    unfolding deepResearch_def Let_def deepResearchBody_interviews by (rule stageYoutube_distinct)
qed

section \<open>The research route\<close>

lemma keysOf_hasCustomKey: "keysOf user ''hasCustomKey'' = None"
  by (simp add: keysOf_def)

lemma getUserKeys_hasCustomKey: "getUserKeys db userId ''hasCustomKey'' = None"
  by (simp add: getUserKeys_def getApiKeys_def keysOf_hasCustomKey split: option.splits)

text \<open>
  C9. Whatever the user store holds, the object that the route passes to \<open>deepResearch\<close>
  has no field \<open>hasCustomKey\<close>, so \<open>isPro\<close> is false; every run started by the route is
  the body of \<open>deepResearch\<close> with \<open>isPro = false\<close>.
\<close>

theorem route_always_free:
  "getUserKeys db userId ''hasCustomKey'' = None
   \<and> isProOf (getUserKeys db userId) = False
   \<and> researchRoute sv db userId guestName context =
       (if guestName = [] then BadRequest ''Guest name is required''
        else
          let run = deepResearchBody sv guestName context
                      (stringField (getUserKeys db userId) ''geminiApiKey'')
                      (stringField (getUserKeys db userId) ''youtubeApiKey'') False
          in Stream (run_events run) (run_report run))"
  by (simp add: researchRoute_def deepResearch_def isProOf_def getUserKeys_hasCustomKey Let_def)

section \<open>The question generator\<close>

lemma failureMessage_carries: "e \<noteq> [] \<Longrightarrow> str_includes (failureMessage (Some e)) e"
  by (simp add: failureMessage_def str_includes_appendI)

lemma attemptLoop_scan:
  "attemptLoop gen parse m as st = scanTries gen parse (map (Pair m) as) st"
  by (induction as arbitrary: st) (auto simp: Let_def split: sum.splits)

lemma scanTries_append:
  "q_data st = None \<Longrightarrow>
   scanTries gen parse (xs @ ys) st =
     (let st1 = scanTries gen parse xs st in
      if q_data st1 \<noteq> None then st1 else scanTries gen parse ys st1)"
  by (induction xs arbitrary: st) (auto simp: Let_def split: sum.splits)

lemma modelLoop_scan:
  "q_data st = None \<Longrightarrow>
   modelLoop gen parse ms st = scanTries gen parse (List.product ms [0, 1]) st"
proof (induction ms arbitrary: st)
  case Nil
  then show ?case by simp
next
  case (Cons m ms)
  have split: "List.product (m # ms) [0, 1::nat] = map (Pair m) [0, 1] @ List.product ms [0, 1]"
    by simp
  show ?case
    unfolding split scanTries_append [OF Cons.prems] modelLoop.simps attemptLoop_scan
    using Cons.IH by (simp add: Let_def)
qed

lemma scanTries_spec:
  "q_data st = None \<Longrightarrow>
   \<exists>xs. q_calls (scanTries gen parse cs st) = q_calls st @ xs
     \<and> prefix xs cs
     \<and> (\<forall>c \<in> set (butlast xs). isl (tryOnce gen parse (fst c) (snd c)))
     \<and> q_waits (scanTries gen parse cs st) = q_waits st @
          map (\<lambda>c. 20000)
            (filter (\<lambda>c. \<exists>e. tryOnce gen parse (fst c) (snd c) = Inl e \<and> isRateLimited e) xs)
     \<and> (case q_data (scanTries gen parse cs st) of
           Some parsed \<Rightarrow> xs \<noteq> [] \<and> tryOnce gen parse (fst (last xs)) (snd (last xs)) = Inr parsed
         | None \<Rightarrow> xs = cs \<and> (\<forall>c \<in> set cs. isl (tryOnce gen parse (fst c) (snd c)))
             \<and> (if cs = [] then lastError (scanTries gen parse cs st) = lastError st
                 else \<exists>e. tryOnce gen parse (fst (last cs)) (snd (last cs)) = Inl e
                        \<and> lastError (scanTries gen parse cs st) = Some e))"
proof (induction cs arbitrary: st)
  case Nil
  then show ?case by simp
next
  case (Cons c cs)
  obtain m a where c: "c = (m, a)" by (cases c)
  show ?case
  proof (cases "tryOnce gen parse m a")
    case (Inr parsed)
    then show ?thesis using c by (simp add: Let_def)
  next
    case (Inl msg)
    define st2 where "st2 = (if isRateLimited msg
             then st\<lparr>q_calls := q_calls st @ [(m, a)], lastError := Some msg, q_waits := q_waits st @ [20000]\<rparr>
             else st\<lparr>q_calls := q_calls st @ [(m, a)], lastError := Some msg\<rparr>)"
    have none: "q_data st2 = None" using Cons.prems by (simp add: st2_def)
    have step: "scanTries gen parse (c # cs) st = scanTries gen parse cs st2"
      using Inl c by (simp add: Let_def st2_def)
    from Cons.IH [OF none] obtain xs where xs:
      "q_calls (scanTries gen parse cs st2) = q_calls st2 @ xs"
      "prefix xs cs"
      "\<forall>c \<in> set (butlast xs). isl (tryOnce gen parse (fst c) (snd c))"
      "q_waits (scanTries gen parse cs st2) = q_waits st2 @
          map (\<lambda>c. 20000)
            (filter (\<lambda>c. \<exists>e. tryOnce gen parse (fst c) (snd c) = Inl e \<and> isRateLimited e) xs)"
      "(case q_data (scanTries gen parse cs st2) of
           Some parsed \<Rightarrow> xs \<noteq> [] \<and> tryOnce gen parse (fst (last xs)) (snd (last xs)) = Inr parsed
         | None \<Rightarrow> xs = cs \<and> (\<forall>c \<in> set cs. isl (tryOnce gen parse (fst c) (snd c)))
             \<and> (if cs = [] then lastError (scanTries gen parse cs st2) = lastError st2
                 else \<exists>e. tryOnce gen parse (fst (last cs)) (snd (last cs)) = Inl e
                        \<and> lastError (scanTries gen parse cs st2) = Some e))"
      by blast
    have calls2: "q_calls st2 = q_calls st @ [c]" by (simp add: st2_def c)
    have waits2: "q_waits st2 = q_waits st @ (if isRateLimited msg then [20000] else [])"
      by (simp add: st2_def)
    have last2: "lastError st2 = Some msg" by (simp add: st2_def)
    have bl: "\<forall>c' \<in> set (butlast (c # xs)). isl (tryOnce gen parse (fst c') (snd c'))"
      using xs(3) Inl c by (cases xs) auto
    show ?thesis
      unfolding step
      apply (rule exI [of _ "c # xs"])
      using xs(1,2,4,5) bl calls2 waits2 last2 Inl c
      by (auto split: option.splits if_splits)
  qed
qed

text \<open>
  C8. With a key available, \<open>generateQuestions\<close> throws nothing and returns a value. Its
  calls follow the fixed list of models in order, at most two tries for each; every call
  but the last one failed. It waits the fixed 20 seconds after each error whose message
  contains \<open>429\<close> or \<open>quota\<close>. A success is returned at once: it is the parsed result of
  the last call made. A failure value is returned only when all six tries failed, and its
  message is built from (and contains) the message of the last error.
\<close>

theorem question_generator:
  "geminiApiKey \<noteq> [] \<or> envKey \<noteq> [] \<Longrightarrow>
   \<exists>res st. generateQuestions gen parse envKey geminiApiKey = Inr (res, st)
     \<and> prefix (q_calls st) (List.product MODELS [0, 1])
     \<and> (\<forall>c \<in> set (butlast (q_calls st)). isl (tryOnce gen parse (fst c) (snd c)))
     \<and> (case res of
           Success parsed \<Rightarrow>
             q_calls st \<noteq> []
             \<and> tryOnce gen parse (fst (last (q_calls st))) (snd (last (q_calls st))) = Inr parsed
         | Failure msg \<Rightarrow>
             q_calls st = List.product MODELS [0, 1]
             \<and> (\<forall>c \<in> set (q_calls st). isl (tryOnce gen parse (fst c) (snd c)))
             \<and> (\<exists>e. tryOnce gen parse (last MODELS) 1 = Inl e \<and> msg = failureMessage (Some e)
                   \<and> (e \<noteq> [] \<longrightarrow> str_includes msg e)))
     \<and> q_waits st =
          map (\<lambda>c. 20000)
            (filter (\<lambda>c. \<exists>e. tryOnce gen parse (fst c) (snd c) = Inl e \<and> isRateLimited e) (q_calls st))"
proof -
  assume key: "geminiApiKey \<noteq> [] \<or> envKey \<noteq> []"
  define st0 :: "'a question_state" where
    "st0 = \<lparr>lastError = None, q_calls = [], q_waits = [], q_data = None\<rparr>"
  define st where "st = modelLoop gen parse MODELS st0"
  have none: "q_data st0 = None" by (simp add: st0_def)
  have scan: "st = scanTries gen parse (List.product MODELS [0, 1]) st0"
    unfolding st_def by (rule modelLoop_scan [OF none])
  have lastTry: "last (List.product MODELS [0, 1::nat]) = (last MODELS, 1)"
    by (simp add: MODELS_def)
  have ne: "List.product MODELS [0, 1::nat] \<noteq> []"
    by (simp add: MODELS_def)
  note spec = scanTries_spec [OF none, of gen parse "List.product MODELS [0, 1]", folded scan]
  show ?thesis
  proof (cases "q_data st")
    case (Some parsed)
    then have res: "generateQuestions gen parse envKey geminiApiKey = Inr (Success parsed, st)"
      using key by (auto simp: generateQuestions_def Let_def st_def st0_def)
    show ?thesis
      unfolding res using spec Some by (auto simp: st0_def)
  next
    case None
    then have res: "generateQuestions gen parse envKey geminiApiKey
        = Inr (Failure (failureMessage (lastError st)), st)"
      using key by (auto simp: generateQuestions_def Let_def st_def st0_def)
    show ?thesis
      unfolding res using spec None ne lastTry failureMessage_carries by (auto simp: st0_def)
  qed
qed

theorem question_generator_witness:
  "''user-key'' \<noteq> []
   \<and> generateQuestions exampleGen exampleParse [] ''user-key'' =
       Inr (Success 0,
            \<lparr>lastError = Some ''429 Too Many Requests'',
             q_calls = [(''gemini-2.5-flash'', 0), (''gemini-2.5-flash'', 1), (''gemini-2.0-flash'', 0)],
             q_waits = [20000, 20000], q_data = Some 0\<rparr>)
   \<and> prefix [(''gemini-2.5-flash'', 0::nat), (''gemini-2.5-flash'', 1), (''gemini-2.0-flash'', 0)]
         (List.product MODELS [0, 1])"
proof -
  have key: "''user-key'' \<noteq> [] \<or> ([]::string) \<noteq> []" by simp
  have run: "generateQuestions exampleGen exampleParse [] ''user-key'' =
       Inr (Success 0,
            \<lparr>lastError = Some ''429 Too Many Requests'',
             q_calls = [(''gemini-2.5-flash'', 0), (''gemini-2.5-flash'', 1), (''gemini-2.0-flash'', 0)],
             q_waits = [20000, 20000], q_data = Some 0\<rparr>)"
  proof -
    have t1: "tryOnce exampleGen exampleParse ''gemini-2.5-flash'' a = Inl ''429 Too Many Requests''"
      for a by (simp add: tryOnce_def exampleGen_def)
    have t2: "tryOnce exampleGen exampleParse ''gemini-2.0-flash'' 0 = Inr 0"
      by code_simp
    have rl: "isRateLimited ''429 Too Many Requests''"
      by code_simp
    show ?thesis
      by (simp add: generateQuestions_def MODELS_def t1 t2 rl)
  qed
  from question_generator [OF key, of exampleGen exampleParse]
  obtain res st where "generateQuestions exampleGen exampleParse [] ''user-key'' = Inr (res, st)"
    and "prefix (q_calls st) (List.product MODELS [0, 1])"
    by blast
  with run have "prefix [(''gemini-2.5-flash'', 0), (''gemini-2.5-flash'', 1), (''gemini-2.0-flash'', 0)]
         (List.product MODELS [0, 1::nat])"
    by auto
  with run show ?thesis by simp
qed

section \<open>The loops of the model-watch stage\<close>

lemma upt_snoc_shift: "i # [Suc i..<Suc i + m] = [i..<i + Suc m]"
  by (simp add: upt_conv_Cons)


text \<open>If the next \<open>d\<close> calls fail and take the counter to the threshold, the loop stops there.\<close>

lemma freeLoop_trip_calls:
  "d \<le> length vs \<Longrightarrow> (\<forall>e < d. an (i + e) (vs ! e) = Inr None) \<Longrightarrow>
   mf \<le> consecutiveFailures st + d \<Longrightarrow>
   set (g_calls (freeLoop an mf i vs st)) \<subseteq> set (g_calls st) \<union> {i ..< i + d}"
proof (induction vs arbitrary: i st d)
  case Nil
  then show ?case by simp
next
  case (Cons v vs)
  show ?case
  proof (cases "consecutiveFailures st \<ge> mf")
    case True
    then show ?thesis by simp
  next
    case False
    with Cons.prems obtain d' where d: "d = Suc d'" by (cases d) auto
    have v: "an i v = Inr None" using Cons.prems(2) d by force
    define st' where "st' = st\<lparr>g_events := g_events st @ [(GeminiVideo, Active)],
       g_calls := g_calls st @ [i], consecutiveFailures := consecutiveFailures st + 1\<rparr>"
    have step: "freeLoop an mf i (v # vs) st = freeLoop an mf (Suc i) vs st'"
      using False v by (simp add: Let_def st'_def)
    have "set (g_calls (freeLoop an mf (Suc i) vs st')) \<subseteq> set (g_calls st') \<union> {Suc i ..< Suc i + d'}"
    proof (rule Cons.IH)
      show "d' \<le> length vs" using Cons.prems(1) d by simp
      show "\<forall>e<d'. an (Suc i + e) (vs ! e) = Inr None"
        using Cons.prems(2) d by (metis Suc_less_eq add_Suc_shift nth_Cons_Suc)
      show "mf \<le> consecutiveFailures st' + d'" using Cons.prems(3) d by (simp add: st'_def)
    qed
    then show ?thesis unfolding step using d by (auto simp: st'_def)
  qed
qed

lemma freeLoop_trip_event:
  "d < length vs \<Longrightarrow> (\<forall>e < d. an (i + e) (vs ! e) = Inr None) \<Longrightarrow>
   mf \<le> consecutiveFailures st + d \<Longrightarrow>
   (GeminiVideo, Error) \<in> set (g_events (freeLoop an mf i vs st))"
proof (induction vs arbitrary: i st d)
  case Nil
  then show ?case by simp
next
  case (Cons v vs)
  show ?case
  proof (cases "consecutiveFailures st \<ge> mf")
    case True
    then show ?thesis by simp
  next
    case False
    with Cons.prems obtain d' where d: "d = Suc d'" by (cases d) auto
    have v: "an i v = Inr None" using Cons.prems(2) d by force
    define st' where "st' = st\<lparr>g_events := g_events st @ [(GeminiVideo, Active)],
       g_calls := g_calls st @ [i], consecutiveFailures := consecutiveFailures st + 1\<rparr>"
    have step: "freeLoop an mf i (v # vs) st = freeLoop an mf (Suc i) vs st'"
      using False v by (simp add: Let_def st'_def)
    have "(GeminiVideo, Error) \<in> set (g_events (freeLoop an mf (Suc i) vs st'))"
    proof (rule Cons.IH)
      show "d' < length vs" using Cons.prems(1) d by simp
      show "\<forall>e<d'. an (Suc i + e) (vs ! e) = Inr None"
        using Cons.prems(2) d by (metis Suc_less_eq add_Suc_shift nth_Cons_Suc)
      show "mf \<le> consecutiveFailures st' + d'" using Cons.prems(3) d by (simp add: st'_def)
    qed
    then show ?thesis unfolding step .
  qed
qed

text \<open>The same, for failures that start at position \<open>k\<close>.\<close>

lemma freeLoop_breaker_calls:
  "k + d \<le> length vs \<Longrightarrow> (\<forall>e < d. an (i + k + e) (vs ! (k + e)) = Inr None) \<Longrightarrow> mf \<le> d \<Longrightarrow>
   (\<forall>j \<in> set (g_calls st). j < i + k + d) \<Longrightarrow>
   \<forall>j \<in> set (g_calls (freeLoop an mf i vs st)). j < i + k + d"
proof (induction vs arbitrary: i st k)
  case Nil
  then show ?case by simp
next
  case (Cons v vs)
  show ?case
  proof (cases k)
    case 0
    have "set (g_calls (freeLoop an mf i (v # vs) st)) \<subseteq> set (g_calls st) \<union> {i ..< i + d}"
      using Cons.prems 0 by (intro freeLoop_trip_calls) auto
    then show ?thesis using Cons.prems(4) 0 by auto
  next
    case (Suc k')
    show ?thesis
    proof (cases "consecutiveFailures st \<ge> mf")
      case True
      then show ?thesis using Cons.prems(4) by simp
    next
      case False
      show ?thesis
      proof (cases "an i v")
        case (Inl err)
        then show ?thesis using False Cons.prems(4) Suc by (auto simp: Let_def)
      next
        case (Inr r)
        obtain st' where step: "freeLoop an mf i (v # vs) st = freeLoop an mf (Suc i) vs st'"
          and calls: "g_calls st' = g_calls st @ [i]"
          using False Inr by (cases r) (auto simp: Let_def)
        have "\<forall>j \<in> set (g_calls (freeLoop an mf (Suc i) vs st')). j < Suc i + k' + d"
        proof (rule Cons.IH)
          show "k' + d \<le> length vs" using Cons.prems(1) Suc by simp
          show "\<forall>e<d. an (Suc i + k' + e) (vs ! (k' + e)) = Inr None"
            using Cons.prems(2) Suc by simp
          show "mf \<le> d" by (rule Cons.prems(3))
          show "\<forall>j\<in>set (g_calls st'). j < Suc i + k' + d"
            using Cons.prems(4) Suc calls by auto
        qed
        then show ?thesis unfolding step using Suc by simp
      qed
    qed
  qed
qed

lemma freeLoop_breaker_event:
  "k + d < length vs \<Longrightarrow> (\<forall>e < d. an (i + k + e) (vs ! (k + e)) = Inr None) \<Longrightarrow> mf \<le> d \<Longrightarrow>
   g_thrown (freeLoop an mf i vs st) = None \<Longrightarrow>
   (GeminiVideo, Error) \<in> set (g_events (freeLoop an mf i vs st))"
proof (induction vs arbitrary: i st k)
  case Nil
  then show ?case by simp
next
  case (Cons v vs)
  show ?case
  proof (cases k)
    case 0
    show ?thesis
      using Cons.prems 0 by (intro freeLoop_trip_event [of d]) auto
  next
    case (Suc k')
    show ?thesis
    proof (cases "consecutiveFailures st \<ge> mf")
      case True
      then show ?thesis by simp
    next
      case False
      show ?thesis
      proof (cases "an i v")
        case (Inl err)
        then show ?thesis using False Cons.prems(4) by (auto simp: Let_def)
      next
        case (Inr r)
        obtain st' where step: "freeLoop an mf i (v # vs) st = freeLoop an mf (Suc i) vs st'"
          using False Inr by (cases r) (auto simp: Let_def)
        have "(GeminiVideo, Error) \<in> set (g_events (freeLoop an mf (Suc i) vs st'))"
        proof (rule Cons.IH)
          show "k' + d < length vs" using Cons.prems(1) Suc by simp
          show "\<forall>e<d. an (Suc i + k' + e) (vs ! (k' + e)) = Inr None"
            using Cons.prems(2) Suc by simp
          show "mf \<le> d" by (rule Cons.prems(3))
          show "g_thrown (freeLoop an mf (Suc i) vs st') = None"
            using Cons.prems(4) step by simp
        qed
        then show ?thesis unfolding step .
      qed
    qed
  qed
qed

lemma freeLoop_complete:
  "g_thrown (freeLoop an mf i vs st) = None \<Longrightarrow>
   (GeminiVideo, Error) \<notin> set (g_events (freeLoop an mf i vs st)) \<Longrightarrow>
   g_calls (freeLoop an mf i vs st) = g_calls st @ [i ..< i + length vs]"
proof (induction vs arbitrary: i st)
  case Nil
  then show ?case by simp
next
  case (Cons v vs)
  have nt: "\<not> consecutiveFailures st \<ge> mf"
    using Cons.prems(2) by auto
  show ?case
  proof (cases "an i v")
    case (Inl err)
    then show ?thesis using nt Cons.prems(1) by (simp add: Let_def)
  next
    case (Inr r)
    obtain st' where step: "freeLoop an mf i (v # vs) st = freeLoop an mf (Suc i) vs st'"
      and calls: "g_calls st' = g_calls st @ [i]"
      using nt Inr by (cases r) (auto simp: Let_def)
    have "g_calls (freeLoop an mf (Suc i) vs st') = g_calls st' @ [Suc i ..< Suc i + length vs]"
      using Cons.prems unfolding step by (intro Cons.IH)
    then show ?thesis
      unfolding step using calls upt_snoc_shift [of i "length vs"] by simp
  qed
qed

subsection \<open>Pro mode\<close>

lemma proLoop_Nil: "proLoop an mf i [] st = st"
  by (simp add: proLoop.simps)

lemma proLoop_trip:
  "vs \<noteq> [] \<Longrightarrow> consecutiveFailures st \<ge> mf \<Longrightarrow>
   proLoop an mf i vs st = st\<lparr>g_events := g_events st @ [(GeminiVideo, Error)]\<rparr>"
  by (subst proLoop.simps) simp

lemma proLoop_throw:
  "vs \<noteq> [] \<Longrightarrow> \<not> consecutiveFailures st \<ge> mf \<Longrightarrow>
   firstError (batchOutcomes an i (take batchSize vs)) = Some err \<Longrightarrow>
   proLoop an mf i vs st =
     st\<lparr>g_events := g_events st @ [(GeminiVideo, Active)],
        g_calls := g_calls st @ [i ..< i + length (take batchSize vs)],
        g_thrown := Some err\<rparr>"
  by (subst proLoop.simps) (simp add: Let_def)

lemma proLoop_step:
  "vs \<noteq> [] \<Longrightarrow> \<not> consecutiveFailures st \<ge> mf \<Longrightarrow>
   firstError (batchOutcomes an i (take batchSize vs)) = None \<Longrightarrow>
   proLoop an mf i vs st =
     proLoop an mf (i + batchSize) (drop batchSize vs)
       (afterBatch (batchOutcomes an i (take batchSize vs)) (length (take batchSize vs))
          (st\<lparr>g_events := g_events st @ [(GeminiVideo, Active)],
              g_calls := g_calls st @ [i ..< i + length (take batchSize vs)]\<rparr>))"
  by (subst proLoop.simps) (simp add: Let_def)

lemma afterBatch_fields [simp]:
  "g_calls (afterBatch outs n st) = g_calls st"
  "g_events (afterBatch outs n st) = g_events st"
  "g_thrown (afterBatch outs n st) = g_thrown st"
  by (simp_all add: afterBatch_def split: prod.splits)

lemma batchFold_all_failed:
  "\<forall>out \<in> set outs. out = Inr None \<Longrightarrow>
   batchFold outs (res, cf, bf) = (res, cf, bf + length outs)"
  by (induction outs arbitrary: bf) auto

lemma afterBatch_all_failed:
  "\<forall>out \<in> set outs. out = Inr None \<Longrightarrow> length outs = n \<Longrightarrow>
   consecutiveFailures (afterBatch outs n st) = consecutiveFailures st + n"
  by (simp add: afterBatch_def batchFold_all_failed)

lemma firstError_none: "\<forall>out \<in> set outs. out = Inr None \<Longrightarrow> firstError outs = None"
  by (induction outs) auto

lemma length_batchOutcomes [simp]: "length (batchOutcomes an i batch) = length batch"
  by (simp add: batchOutcomes_def)

lemma nth_batchOutcomes:
  "e < length batch \<Longrightarrow> batchOutcomes an i batch ! e = an (i + e) (batch ! e)"
  by (simp add: batchOutcomes_def)

lemma batch_all_failed:
  assumes "batchSize \<le> length vs" and "\<forall>e < batchSize. an (i + e) (vs ! e) = Inr None"
  shows "\<forall>out \<in> set (batchOutcomes an i (take batchSize vs)). out = Inr None"
proof
  fix out assume "out \<in> set (batchOutcomes an i (take batchSize vs))"
  then obtain e where e: "e < length (take batchSize vs)"
    "out = batchOutcomes an i (take batchSize vs) ! e"
    by (metis in_set_conv_nth length_batchOutcomes)
  then have "e < batchSize" using assms(1) by simp
  then show "out = Inr None"
    using e assms nth_batchOutcomes [OF e(1), of an i] by simp
qed

text \<open>If the next \<open>d\<close> whole batches fail and take the counter to the threshold, the loop stops there.\<close>

lemma proLoop_trip_calls:
  "batchSize * d \<le> length vs \<Longrightarrow> (\<forall>e < batchSize * d. an (i + e) (vs ! e) = Inr None) \<Longrightarrow>
   mf \<le> consecutiveFailures st + batchSize * d \<Longrightarrow>
   set (g_calls (proLoop an mf i vs st)) \<subseteq> set (g_calls st) \<union> {i ..< i + batchSize * d}"
proof (induction d arbitrary: i vs st)
  case 0
  then show ?case by (cases "vs = []") (simp_all add: proLoop_Nil proLoop_trip)
next
  case (Suc d)
  have len: "batchSize \<le> length vs" using Suc.prems(1) by simp
  then have ne: "vs \<noteq> []" by (auto simp: batchSize_def)
  show ?case
  proof (cases "consecutiveFailures st \<ge> mf")
    case True
    then show ?thesis by (simp add: proLoop_trip [OF ne])
  next
    case False
    have fails: "\<forall>out \<in> set (batchOutcomes an i (take batchSize vs)). out = Inr None"
      using Suc.prems(2) by (intro batch_all_failed [OF len]) simp
    define st' where "st' = afterBatch (batchOutcomes an i (take batchSize vs)) (length (take batchSize vs))
          (st\<lparr>g_events := g_events st @ [(GeminiVideo, Active)],
              g_calls := g_calls st @ [i ..< i + length (take batchSize vs)]\<rparr>)"
    have step: "proLoop an mf i vs st = proLoop an mf (i + batchSize) (drop batchSize vs) st'"
      unfolding st'_def by (rule proLoop_step [OF ne False firstError_none [OF fails]])
    have cf: "consecutiveFailures st' = consecutiveFailures st + batchSize"
      unfolding st'_def using len by (simp add: afterBatch_all_failed [OF fails])
    have calls: "g_calls st' = g_calls st @ [i ..< i + batchSize]"
      unfolding st'_def using len by simp
    have "set (g_calls (proLoop an mf (i + batchSize) (drop batchSize vs) st'))
        \<subseteq> set (g_calls st') \<union> {i + batchSize ..< i + batchSize + batchSize * d}"
    proof (rule Suc.IH)
      show "batchSize * d \<le> length (drop batchSize vs)" using Suc.prems(1) by simp
      show "\<forall>e<batchSize * d. an (i + batchSize + e) (drop batchSize vs ! e) = Inr None"
      proof (intro allI impI)
        fix e assume "e < batchSize * d"
        then have "batchSize + e < batchSize * Suc d" by simp
        then have "an (i + (batchSize + e)) (vs ! (batchSize + e)) = Inr None"
          using Suc.prems(2) by blast
        then show "an (i + batchSize + e) (drop batchSize vs ! e) = Inr None"
          using len by (simp add: add.assoc)
      qed
      show "mf \<le> consecutiveFailures st' + batchSize * d" using Suc.prems(3) cf by simp
    qed
    then show ?thesis unfolding step calls by auto
  qed
qed

lemma proLoop_trip_event:
  "batchSize * d < length vs \<Longrightarrow> (\<forall>e < batchSize * d. an (i + e) (vs ! e) = Inr None) \<Longrightarrow>
   mf \<le> consecutiveFailures st + batchSize * d \<Longrightarrow>
   (GeminiVideo, Error) \<in> set (g_events (proLoop an mf i vs st))"
proof (induction d arbitrary: i vs st)
  case 0
  then show ?case by (cases "vs = []") (simp_all add: proLoop_trip)
next
  case (Suc d)
  have len: "batchSize \<le> length vs" using Suc.prems(1) by simp
  then have ne: "vs \<noteq> []" by (auto simp: batchSize_def)
  show ?case
  proof (cases "consecutiveFailures st \<ge> mf")
    case True
    then show ?thesis by (simp add: proLoop_trip [OF ne])
  next
    case False
    have fails: "\<forall>out \<in> set (batchOutcomes an i (take batchSize vs)). out = Inr None"
      using Suc.prems(2) by (intro batch_all_failed [OF len]) simp
    define st' where "st' = afterBatch (batchOutcomes an i (take batchSize vs)) (length (take batchSize vs))
          (st\<lparr>g_events := g_events st @ [(GeminiVideo, Active)],
              g_calls := g_calls st @ [i ..< i + length (take batchSize vs)]\<rparr>)"
    have step: "proLoop an mf i vs st = proLoop an mf (i + batchSize) (drop batchSize vs) st'"
      unfolding st'_def by (rule proLoop_step [OF ne False firstError_none [OF fails]])
    have cf: "consecutiveFailures st' = consecutiveFailures st + batchSize"
      unfolding st'_def using len by (simp add: afterBatch_all_failed [OF fails])
    have "(GeminiVideo, Error) \<in> set (g_events (proLoop an mf (i + batchSize) (drop batchSize vs) st'))"
    proof (rule Suc.IH)
      show "batchSize * d < length (drop batchSize vs)" using Suc.prems(1) by simp
      show "\<forall>e<batchSize * d. an (i + batchSize + e) (drop batchSize vs ! e) = Inr None"
      proof (intro allI impI)
        fix e assume "e < batchSize * d"
        then have "batchSize + e < batchSize * Suc d" by simp
        then have "an (i + (batchSize + e)) (vs ! (batchSize + e)) = Inr None"
          using Suc.prems(2) by blast
        then show "an (i + batchSize + e) (drop batchSize vs ! e) = Inr None"
          using len by (simp add: add.assoc)
      qed
      show "mf \<le> consecutiveFailures st' + batchSize * d" using Suc.prems(3) cf by simp
    qed
    then show ?thesis unfolding step .
  qed
qed

text \<open>The same, for whole failed batches that start at batch \<open>b\<close>.\<close>

lemma proLoop_breaker_calls:
  "batchSize * b + batchSize * d \<le> length vs \<Longrightarrow>
   (\<forall>e < batchSize * d. an (i + batchSize * b + e) (vs ! (batchSize * b + e)) = Inr None) \<Longrightarrow>
   mf \<le> batchSize * d \<Longrightarrow>
   (\<forall>j \<in> set (g_calls st). j < i + batchSize * b + batchSize * d) \<Longrightarrow>
   \<forall>j \<in> set (g_calls (proLoop an mf i vs st)). j < i + batchSize * b + batchSize * d"
proof (induction b arbitrary: i vs st)
  case 0
  have "set (g_calls (proLoop an mf i vs st)) \<subseteq> set (g_calls st) \<union> {i ..< i + batchSize * d}"
    using 0 by (intro proLoop_trip_calls) auto
  then show ?case using 0(4) by auto
next
  case (Suc b)
  have len: "batchSize \<le> length vs" using Suc.prems(1) by simp
  then have ne: "vs \<noteq> []" by (auto simp: batchSize_def)
  show ?case
  proof (cases "consecutiveFailures st \<ge> mf")
    case True
    then show ?thesis using Suc.prems(4) by (simp add: proLoop_trip [OF ne])
  next
    case False
    show ?thesis
    proof (cases "firstError (batchOutcomes an i (take batchSize vs))")
      case (Some err)
      show ?thesis
        unfolding proLoop_throw [OF ne False Some] using Suc.prems(4) len by auto
    next
      case None
      define st' where "st' = afterBatch (batchOutcomes an i (take batchSize vs)) (length (take batchSize vs))
          (st\<lparr>g_events := g_events st @ [(GeminiVideo, Active)],
              g_calls := g_calls st @ [i ..< i + length (take batchSize vs)]\<rparr>)"
      have step: "proLoop an mf i vs st = proLoop an mf (i + batchSize) (drop batchSize vs) st'"
        unfolding st'_def by (rule proLoop_step [OF ne False None])
      have calls: "g_calls st' = g_calls st @ [i ..< i + batchSize]"
        unfolding st'_def using len by simp
      have "\<forall>j \<in> set (g_calls (proLoop an mf (i + batchSize) (drop batchSize vs) st')).
              j < i + batchSize + batchSize * b + batchSize * d"
      proof (rule Suc.IH)
        show "batchSize * b + batchSize * d \<le> length (drop batchSize vs)"
          using Suc.prems(1) by simp
        show "\<forall>e<batchSize * d. an (i + batchSize + batchSize * b + e)
                 (drop batchSize vs ! (batchSize * b + e)) = Inr None"
        proof (intro allI impI)
          fix e assume e: "e < batchSize * d"
          have "an (i + batchSize * Suc b + e) (vs ! (batchSize * Suc b + e)) = Inr None"
            using Suc.prems(2) e by blast
          then show "an (i + batchSize + batchSize * b + e)
                 (drop batchSize vs ! (batchSize * b + e)) = Inr None"
            using len by (simp add: add.assoc)
        qed
        show "mf \<le> batchSize * d" by (rule Suc.prems(3))
        show "\<forall>j\<in>set (g_calls st'). j < i + batchSize + batchSize * b + batchSize * d"
          using Suc.prems(4) calls by auto
      qed
      then show ?thesis unfolding step by (simp add: add.assoc)
    qed
  qed
qed

lemma proLoop_breaker_event:
  "batchSize * b + batchSize * d < length vs \<Longrightarrow>
   (\<forall>e < batchSize * d. an (i + batchSize * b + e) (vs ! (batchSize * b + e)) = Inr None) \<Longrightarrow>
   mf \<le> batchSize * d \<Longrightarrow>
   g_thrown (proLoop an mf i vs st) = None \<Longrightarrow>
   (GeminiVideo, Error) \<in> set (g_events (proLoop an mf i vs st))"
proof (induction b arbitrary: i vs st)
  case 0
  show ?case
    using 0 by (intro proLoop_trip_event [of d]) auto
next
  case (Suc b)
  have len: "batchSize \<le> length vs" using Suc.prems(1) by simp
  then have ne: "vs \<noteq> []" by (auto simp: batchSize_def)
  show ?case
  proof (cases "consecutiveFailures st \<ge> mf")
    case True
    then show ?thesis by (simp add: proLoop_trip [OF ne])
  next
    case False
    show ?thesis
    proof (cases "firstError (batchOutcomes an i (take batchSize vs))")
      case (Some err)
      show ?thesis
        using Suc.prems(4) unfolding proLoop_throw [OF ne False Some] by simp
    next
      case None
      define st' where "st' = afterBatch (batchOutcomes an i (take batchSize vs)) (length (take batchSize vs))
          (st\<lparr>g_events := g_events st @ [(GeminiVideo, Active)],
              g_calls := g_calls st @ [i ..< i + length (take batchSize vs)]\<rparr>)"
      have step: "proLoop an mf i vs st = proLoop an mf (i + batchSize) (drop batchSize vs) st'"
        unfolding st'_def by (rule proLoop_step [OF ne False None])
      have "(GeminiVideo, Error) \<in> set (g_events (proLoop an mf (i + batchSize) (drop batchSize vs) st'))"
      proof (rule Suc.IH)
        show "batchSize * b + batchSize * d < length (drop batchSize vs)"
          using Suc.prems(1) by simp
        show "\<forall>e<batchSize * d. an (i + batchSize + batchSize * b + e)
                 (drop batchSize vs ! (batchSize * b + e)) = Inr None"
        proof (intro allI impI)
          fix e assume e: "e < batchSize * d"
          have "an (i + batchSize * Suc b + e) (vs ! (batchSize * Suc b + e)) = Inr None"
            using Suc.prems(2) e by blast
          then show "an (i + batchSize + batchSize * b + e)
                 (drop batchSize vs ! (batchSize * b + e)) = Inr None"
            using len by (simp add: add.assoc)
        qed
        show "mf \<le> batchSize * d" by (rule Suc.prems(3))
        show "g_thrown (proLoop an mf (i + batchSize) (drop batchSize vs) st') = None"
          using Suc.prems(4) step by simp
      qed
      then show ?thesis unfolding step .
    qed
  qed
qed

lemma proLoop_calls:
  "\<exists>m \<le> length vs. g_calls (proLoop an mf i vs st) = g_calls st @ [i ..< i + m]"
proof (induction an mf i vs st rule: proLoop.induct)
  case (1 an mf i vs st)
  show ?case
  proof (cases "vs = []")
    case True
    then show ?thesis by (simp add: proLoop_Nil)
  next
    case ne: False
    show ?thesis
    proof (cases "consecutiveFailures st \<ge> mf")
      case True
      then show ?thesis by (intro exI [of _ 0]) (simp add: proLoop_trip [OF ne])
    next
      case False
      let ?batch = "take batchSize vs"
      show ?thesis
      proof (cases "firstError (batchOutcomes an i ?batch)")
        case (Some err)
        show ?thesis
          unfolding proLoop_throw [OF ne False Some]
          by (intro exI [of _ "length ?batch"]) simp
      next
        case None
        define st1 where "st1 = st\<lparr>g_events := g_events st @ [(GeminiVideo, Active)],
              g_calls := g_calls st @ [i ..< i + length ?batch]\<rparr>"
        define st' where "st' = afterBatch (batchOutcomes an i ?batch) (length ?batch) st1"
        have step: "proLoop an mf i vs st = proLoop an mf (i + batchSize) (drop batchSize vs) st'"
          unfolding st'_def st1_def by (rule proLoop_step [OF ne False None])
        have calls: "g_calls st' = g_calls st @ [i ..< i + length ?batch]"
          unfolding st'_def st1_def by simp
        from "1.IH" [OF ne False refl refl refl None, folded st1_def, folded st'_def]
        obtain m where m: "m \<le> length (drop batchSize vs)"
          "g_calls (proLoop an mf (i + batchSize) (drop batchSize vs) st') = g_calls st' @ [i + batchSize ..< i + batchSize + m]"
          by blast
        show ?thesis
        proof (cases "batchSize \<le> length vs")
          case True
          have app: "[i ..< i + batchSize] @ [i + batchSize ..< i + batchSize + m] = [i ..< i + (batchSize + m)]"
            by (metis add.assoc upt_add_eq_append le_add1)
          have tk: "length ?batch = batchSize" using True by simp
          have "g_calls (proLoop an mf i vs st) = g_calls st @ [i ..< i + (batchSize + m)]"
            unfolding step m(2) calls tk using app by simp
          moreover have "batchSize + m \<le> length vs" using m(1) True by simp
          ultimately show ?thesis by blast
        next
          case False
          then have "m = 0" using m(1) by simp
          moreover have tk: "length ?batch = length vs" using False by simp
          ultimately have "g_calls (proLoop an mf i vs st) = g_calls st @ [i ..< i + length vs]"
            unfolding step m(2) calls by simp
          then show ?thesis by blast
        qed
      qed
    qed
  qed
qed


section \<open>The circuit breaker\<close>

text \<open>
  C3, as amended. In Free mode, when three analysis calls in a row fail, at the videos
  \<open>k\<close>, \<open>k + 1\<close> and \<open>k + 2\<close> of the videos to analyze, no call is issued for video
  \<open>k + 3\<close> or any later one; and if there is a video \<open>k + 3\<close> (and no call threw), the
  error-status event is emitted. In Pro mode the failures are counted by whole batches of
  three: when all six calls of two batches in a row fail, no later call is issued; and if a
  video is left after them (and no call threw), the error-status event is emitted.
\<close>

theorem circuit_breaker:
  "(k + 3 \<le> length (videosToAnalyze videos False)
      \<and> (\<forall>e < 3. an (k + e) (videosToAnalyze videos False ! (k + e)) = Inr None)
    \<longrightarrow> (\<forall>j \<in> set (g_calls (analyzeVideosWithGemini an videos False)). j < k + 3)
        \<and> (k + 3 < length (videosToAnalyze videos False)
              \<and> g_thrown (analyzeVideosWithGemini an videos False) = None
            \<longrightarrow> (GeminiVideo, Error) \<in> set (g_events (analyzeVideosWithGemini an videos False))))
   \<and> (3 * b + 6 \<le> length videos
      \<and> (\<forall>e < 6. an (3 * b + e) (videos ! (3 * b + e)) = Inr None)
    \<longrightarrow> (\<forall>j \<in> set (g_calls (analyzeVideosWithGemini an videos True)). j < 3 * b + 6)
        \<and> (3 * b + 6 < length videos
              \<and> g_thrown (analyzeVideosWithGemini an videos True) = None
            \<longrightarrow> (GeminiVideo, Error) \<in> set (g_events (analyzeVideosWithGemini an videos True))))"
proof (intro conjI impI; (elim conjE)?)
  let ?vs = "videosToAnalyze videos False"
  assume len: "k + 3 \<le> length ?vs" and fails: "\<forall>e < 3. an (k + e) (?vs ! (k + e)) = Inr None"
  have "\<forall>j \<in> set (g_calls (freeLoop an 3 0 ?vs initGemini)). j < 0 + k + 3"
    using len fails by (intro freeLoop_breaker_calls) (simp_all add: initGemini_def)
  then show "\<forall>j \<in> set (g_calls (analyzeVideosWithGemini an videos False)). j < k + 3"
    by (simp add: analyzeVideosWithGemini_def maxConsecutiveFailures_def)
  assume more: "k + 3 < length ?vs"
    and nothrow: "g_thrown (analyzeVideosWithGemini an videos False) = None"
  have "(GeminiVideo, Error) \<in> set (g_events (freeLoop an 3 0 ?vs initGemini))"
    using more fails nothrow
    by (intro freeLoop_breaker_event [of k 3])
       (simp_all add: analyzeVideosWithGemini_def maxConsecutiveFailures_def)
  then show "(GeminiVideo, Error) \<in> set (g_events (analyzeVideosWithGemini an videos False))"
    by (simp add: analyzeVideosWithGemini_def maxConsecutiveFailures_def)
next
  have vs: "videosToAnalyze videos True = videos"
    by (simp add: videosToAnalyze_def MAX_GEMINI_VIDEOS_def)
  assume len: "3 * b + 6 \<le> length videos"
    and fails: "\<forall>e < 6. an (3 * b + e) (videos ! (3 * b + e)) = Inr None"
  have "\<forall>j \<in> set (g_calls (proLoop an 5 0 videos initGemini)). j < 0 + batchSize * b + batchSize * 2"
    using len fails by (intro proLoop_breaker_calls) (simp_all add: initGemini_def batchSize_def)
  then show "\<forall>j \<in> set (g_calls (analyzeVideosWithGemini an videos True)). j < 3 * b + 6"
    by (simp add: analyzeVideosWithGemini_def maxConsecutiveFailures_def vs batchSize_def)
  assume more: "3 * b + 6 < length videos"
    and nothrow: "g_thrown (analyzeVideosWithGemini an videos True) = None"
  have "(GeminiVideo, Error) \<in> set (g_events (proLoop an 5 0 videos initGemini))"
    using more fails nothrow
    by (intro proLoop_breaker_event [of b 2])
       (simp_all add: analyzeVideosWithGemini_def maxConsecutiveFailures_def vs batchSize_def)
  then show "(GeminiVideo, Error) \<in> set (g_events (analyzeVideosWithGemini an videos True))"
    by (simp add: analyzeVideosWithGemini_def maxConsecutiveFailures_def vs)
qed

theorem circuit_breaker_witness:
  "0 + 3 < length (videosToAnalyze (replicate 7 exampleVideo) False)
   \<and> 3 * 0 + 6 < length (replicate 7 exampleVideo)
   \<and> set (g_calls (analyzeVideosWithGemini allFail (replicate 7 exampleVideo) False)) \<subseteq> {..<3}
   \<and> (GeminiVideo, Error) \<in> set (g_events (analyzeVideosWithGemini allFail (replicate 7 exampleVideo) False))
   \<and> set (g_calls (analyzeVideosWithGemini allFail (replicate 7 exampleVideo) True)) \<subseteq> {..<6}
   \<and> (GeminiVideo, Error) \<in> set (g_events (analyzeVideosWithGemini allFail (replicate 7 exampleVideo) True))"
proof -
  have len: "length (videosToAnalyze (replicate 7 exampleVideo) False) = 7"
    by (simp add: videosToAnalyze_def MAX_GEMINI_VIDEOS_def)
  have fails: "allFail i v = Inr None" for i v
    by (simp add: allFail_def)
  have free: "g_thrown (analyzeVideosWithGemini allFail (replicate 7 exampleVideo) False) = None"
    by code_simp
  have pro: "g_thrown (analyzeVideosWithGemini allFail (replicate 7 exampleVideo) True) = None"
    by code_simp
  show ?thesis
    using circuit_breaker [of 0 "replicate 7 exampleVideo" allFail 0] len fails free pro
    by (simp add: subset_iff)
qed

text \<open>
  C3 as stated fails twice. In Free mode, when the three failures are at the last three
  videos, the loop ends without an error-status event. In Pro mode, when the first call
  succeeds and the calls for the videos 1 to 5 fail (five in a row), video 6 is still called
  for, and no error-status event is emitted.
\<close>

theorem circuit_breaker_counterexample:
  "analyzeVideosWithGemini allFail (replicate 3 exampleVideo) False =
     \<lparr>results = [], consecutiveFailures = 3,
      g_events = [(GeminiVideo, Active), (GeminiVideo, Active), (GeminiVideo, Active)],
      g_calls = [0, 1, 2], g_thrown = None\<rparr>
   \<and> analyzeVideosWithGemini firstSucceeds (replicate 7 exampleVideo) True =
     \<lparr>results = [exampleRecord], consecutiveFailures = 4,
      g_events = [(GeminiVideo, Active), (GeminiVideo, Active), (GeminiVideo, Active)],
      g_calls = [0, 1, 2, 3, 4, 5, 6], g_thrown = None\<rparr>"
  by code_simp

section \<open>Quota errors in the query loop\<close>

lemma addItems_fields [simp]:
  "quotaErrors (addItems items st) = quotaErrors st"
  "issued (addItems items st) = issued st"
  by (induction items arbitrary: st) auto

lemma searchStep_issued [simp]: "issued (searchStep yt mr i q st) = issued st @ [(i, q)]"
  by (simp add: searchStep_def Let_def split: search_response.splits)








lemma length_queries: "length (queries g False) = 8" "length (queries g True) = 13"
  by (simp_all add: queries_def baseQueries_def proExtraQueries_def)




section \<open>No video is analyzed twice\<close>

lemma subseq_distinct: "subseq xs ys \<Longrightarrow> distinct ys \<Longrightarrow> distinct xs"
  using in_set_subseqs subseqs_distinctD by blast

lemma subseq_set: "subseq xs ys \<Longrightarrow> set xs \<subseteq> set ys"
  by (induction rule: list_emb.induct) auto

lemma fetchOne_id: "fetchOne ft v = Inr (Some t) \<Longrightarrow> t_videoId t = videoId v"
  by (auto simp: fetchOne_def Let_def split: prod.splits if_splits sum.splits)

lemma fetchLoop_partition:
  "ft_thrown (fetchLoop ft vs st) = None \<Longrightarrow>
   ft_failed (fetchLoop ft vs st) = ft_failed st @ filter (\<lambda>v. fetchOne ft v = Inr None) vs
   \<and> map t_videoId (ft_results (fetchLoop ft vs st)) =
       map t_videoId (ft_results st) @ map videoId (filter (\<lambda>v. fetchOne ft v \<noteq> Inr None) vs)"
proof (induction vs arbitrary: st)
  case Nil
  then show ?case by simp
next
  case (Cons v vs)
  show ?case
  proof (cases "fetchOne ft v")
    case (Inl err)
    then show ?thesis using Cons.prems by simp
  next
    case (Inr r)
    show ?thesis
    proof (cases r)
      case None
      then show ?thesis using Inr Cons by simp
    next
      case (Some t)
      then show ?thesis using Inr Cons fetchOne_id [of ft v t] by simp
    qed
  qed
qed

lemma distinct_partition:
  "distinct (map f xs) \<Longrightarrow>
   distinct (map f (filter (\<lambda>x. \<not> P x) xs) @ map f (filter P xs))"
  by (induction xs) auto

lemma stageTranscripts_partition:
  assumes "distinct (map videoId ivs)"
    and "stageTranscripts sv ivs = (ts, fs, ev)"
  shows "distinct (map t_videoId ts @ map videoId fs)"
    and "set (map t_videoId ts) \<union> set (map videoId fs) \<subseteq> set (map videoId ivs)"
    and "length ts + length fs = length ivs"
proof -
  let ?fs = "fetchTranscripts (fetchTranscript sv) ivs"
  let ?P = "\<lambda>v. fetchOne (fetchTranscript sv) v = Inr None"
  have "distinct (map t_videoId ts @ map videoId fs)
    \<and> set (map t_videoId ts) \<union> set (map videoId fs) \<subseteq> set (map videoId ivs)
    \<and> length ts + length fs = length ivs"
  proof (cases "ivs = []")
    case True
    then show ?thesis using assms(2) by (simp add: stageTranscripts_def)
  next
    case ne: False
    show ?thesis
    proof (cases "ft_thrown ?fs")
      case (Some err)
      then have "ts = []" "fs = ivs"
        using assms(2) ne by (simp_all add: stageTranscripts_def Let_def)
      then show ?thesis using assms(1) by simp
    next
      case None
      then have ts: "ts = ft_results ?fs" and fs: "fs = ft_failed ?fs"
        using assms(2) ne by (simp_all add: stageTranscripts_def Let_def)
      from fetchLoop_partition [of "fetchTranscript sv" ivs] None
      have part: "fs = filter ?P ivs"
        "map t_videoId ts = map videoId (filter (\<lambda>v. \<not> ?P v) ivs)"
        unfolding ts fs fetchTranscripts_def by simp_all
      have "length (map t_videoId ts) + length fs = length ivs"
        unfolding part using sum_length_filter_compl [of ?P ivs] by simp
      then have len: "length ts + length fs = length ivs" by simp
      have dist: "distinct (map t_videoId ts @ map videoId fs)"
        unfolding part by (rule distinct_partition [OF assms(1)])
      have sub: "set (map t_videoId ts) \<union> set (map videoId fs) \<subseteq> set (map videoId ivs)"
        unfolding part by auto
      from dist sub len show ?thesis by blast
    qed
  qed
  then show "distinct (map t_videoId ts @ map videoId fs)"
    and "set (map t_videoId ts) \<union> set (map videoId fs) \<subseteq> set (map videoId ivs)"
    and "length ts + length fs = length ivs"
    by blast+
qed

lemma analyzeVideoWithGemini_id:
  "analyzeVideoWithGemini vm ek gk i v = Inr (Some r) \<Longrightarrow> t_videoId r = videoId v"
  by (auto simp: analyzeVideoWithGemini_def split: if_splits sum.splits)

lemma freeLoop_results:
  "keepsId an \<Longrightarrow>
   \<exists>rs. results (freeLoop an mf i vs st) = results st @ rs
       \<and> subseq (map t_videoId rs) (map videoId vs)"
proof (induction vs arbitrary: i st)
  case Nil
  then show ?case by simp
next
  case (Cons v vs)
  show ?case
  proof (cases "consecutiveFailures st \<ge> mf")
    case True
    then show ?thesis by simp
  next
    case False
    show ?thesis
    proof (cases "an i v")
      case (Inl err)
      then show ?thesis using False by (simp add: Let_def)
    next
      case (Inr r)
      show ?thesis
      proof (cases r)
        case None
        define st' where "st' = st\<lparr>g_events := g_events st @ [(GeminiVideo, Active)],
          g_calls := g_calls st @ [i], consecutiveFailures := consecutiveFailures st + 1\<rparr>"
        have step: "freeLoop an mf i (v # vs) st = freeLoop an mf (Suc i) vs st'"
          using False Inr None by (simp add: Let_def st'_def)
        from Cons.IH [OF Cons.prems, of "Suc i" st'] obtain rs where
          "results (freeLoop an mf (Suc i) vs st') = results st' @ rs"
          "subseq (map t_videoId rs) (map videoId vs)" by blast
        then show ?thesis unfolding step by (intro exI [of _ rs]) (simp add: st'_def list_emb_Cons)
      next
        case (Some t)
        define st' where "st' = st\<lparr>g_events := g_events st @ [(GeminiVideo, Active)],
          g_calls := g_calls st @ [i], results := results st @ [t], consecutiveFailures := 0\<rparr>"
        have step: "freeLoop an mf i (v # vs) st = freeLoop an mf (Suc i) vs st'"
          using False Inr Some by (simp add: Let_def st'_def)
        have id: "t_videoId t = videoId v"
          using Cons.prems Inr Some by (auto simp: keepsId_def)
        from Cons.IH [OF Cons.prems, of "Suc i" st'] obtain rs where
          "results (freeLoop an mf (Suc i) vs st') = results st' @ rs"
          "subseq (map t_videoId rs) (map videoId vs)" by blast
        then show ?thesis unfolding step using id by (intro exI [of _ "t # rs"]) (simp add: st'_def)
      qed
    qed
  qed
qed

lemma batchFold_results:
  "list_all2 (\<lambda>out v. \<forall>r. out = Inr (Some r) \<longrightarrow> t_videoId r = videoId v) outs batch \<Longrightarrow>
   \<exists>rs. fst (batchFold outs (res, cf, bf)) = res @ rs
       \<and> subseq (map t_videoId rs) (map videoId batch)"
proof (induction outs batch arbitrary: res cf bf rule: list_all2_induct)
  case Nil
  then show ?case by simp
next
  case (Cons out outs v vs)
  show ?case
  proof (cases "\<exists>r. out = Inr (Some r)")
    case True
    then obtain r where r: "out = Inr (Some r)" by blast
    then have id: "t_videoId r = videoId v" using Cons.hyps(1) by simp
    from Cons.IH [of "res @ [r]" 0 bf] obtain rs where
      "fst (batchFold outs (res @ [r], 0, bf)) = (res @ [r]) @ rs"
      "subseq (map t_videoId rs) (map videoId vs)" by blast
    then show ?thesis using r id by (intro exI [of _ "r # rs"]) simp
  next
    case False
    then have step: "batchFold (out # outs) (res, cf, bf) = batchFold outs (res, cf, bf + 1)"
      by (cases out) (auto split: option.splits)
    from Cons.IH [of res cf "bf + 1"] obtain rs where
      "fst (batchFold outs (res, cf, bf + 1)) = res @ rs"
      "subseq (map t_videoId rs) (map videoId vs)" by blast
    then show ?thesis unfolding step by (intro exI [of _ rs]) (simp add: list_emb_Cons)
  qed
qed

lemma batchOutcomes_keepsId:
  "keepsId an \<Longrightarrow>
   list_all2 (\<lambda>out v. \<forall>r. out = Inr (Some r) \<longrightarrow> t_videoId r = videoId v)
     (batchOutcomes an i batch) batch"
  by (simp add: list_all2_conv_all_nth nth_batchOutcomes keepsId_def)

lemma afterBatch_results:
  "results (afterBatch outs n st) = fst (batchFold outs (results st, consecutiveFailures st, 0))"
  by (simp add: afterBatch_def split: prod.splits)

lemma proLoop_results:
  "keepsId an \<Longrightarrow>
   \<exists>rs. results (proLoop an mf i vs st) = results st @ rs
       \<and> subseq (map t_videoId rs) (map videoId vs)"
proof (induction an mf i vs st rule: proLoop.induct)
  case (1 an mf i vs st)
  show ?case
  proof (cases "vs = []")
    case True
    then show ?thesis by (simp add: proLoop_Nil)
  next
    case ne: False
    show ?thesis
    proof (cases "consecutiveFailures st \<ge> mf")
      case True
      then show ?thesis by (simp add: proLoop_trip [OF ne])
    next
      case False
      let ?batch = "take batchSize vs"
      show ?thesis
      proof (cases "firstError (batchOutcomes an i ?batch)")
        case (Some err)
        show ?thesis unfolding proLoop_throw [OF ne False Some] by simp
      next
        case None
        define st1 where "st1 = st\<lparr>g_events := g_events st @ [(GeminiVideo, Active)],
              g_calls := g_calls st @ [i ..< i + length ?batch]\<rparr>"
        define st' where "st' = afterBatch (batchOutcomes an i ?batch) (length ?batch) st1"
        have step: "proLoop an mf i vs st = proLoop an mf (i + batchSize) (drop batchSize vs) st'"
          unfolding st'_def st1_def by (rule proLoop_step [OF ne False None])
        from batchFold_results [OF batchOutcomes_keepsId [OF "1.prems"], of i ?batch "results st1"
            "consecutiveFailures st1" 0]
        obtain rs1 where rs1: "results st' = results st @ rs1"
          "subseq (map t_videoId rs1) (map videoId ?batch)"
          unfolding st'_def afterBatch_results by (auto simp: st1_def)
        from "1.IH" [OF ne False refl refl refl None, folded st1_def, folded st'_def, OF "1.prems"]
        obtain rs2 where rs2:
          "results (proLoop an mf (i + batchSize) (drop batchSize vs) st') = results st' @ rs2"
          "subseq (map t_videoId rs2) (map videoId (drop batchSize vs))"
          by blast
        have "subseq (map t_videoId rs1 @ map t_videoId rs2)
                (map videoId ?batch @ map videoId (drop batchSize vs))"
          by (rule list_emb_append_mono [OF rs1(2) rs2(2)])
        then have "subseq (map t_videoId (rs1 @ rs2)) (map videoId vs)"
          by (simp flip: map_append)
        then show ?thesis
          unfolding step rs2(1) rs1(1) by (intro exI [of _ "rs1 @ rs2"]) simp
      qed
    qed
  qed
qed

lemma analyzeVideosWithGemini_results:
  assumes "keepsId an"
  shows "subseq (map t_videoId (results (analyzeVideosWithGemini an videos p))) (map videoId videos)"
proof -
  let ?vs = "videosToAnalyze videos p"
  have "prefix (map videoId ?vs) (map videoId videos)"
    unfolding videosToAnalyze_def by (simp add: map_mono_prefix take_is_prefix)
  then have pre: "subseq (map videoId ?vs) (map videoId videos)"
    by (rule prefix_imp_subseq)
  have "subseq (map t_videoId (results (analyzeVideosWithGemini an videos p))) (map videoId ?vs)"
  proof (cases p)
    case True
    from proLoop_results [OF assms, of "maxConsecutiveFailures p" 0 ?vs initGemini]
    show ?thesis using True by (auto simp: analyzeVideosWithGemini_def initGemini_def)
  next
    case False
    from freeLoop_results [OF assms, of "maxConsecutiveFailures p" 0 ?vs initGemini]
    show ?thesis using False by (auto simp: analyzeVideosWithGemini_def initGemini_def)
  qed
  then show ?thesis using pre subseq_order.order_trans by blast
qed

lemma analyzer_keepsId: "keepsId (analyzeVideoWithGemini vm ek gk)"
  unfolding keepsId_def using analyzeVideoWithGemini_id by blast

lemma stageGemini_subseq:
  "stageGemini sv gk p fs = (gs, calls, ev) \<Longrightarrow> subseq (map t_videoId gs) (map videoId fs)"
  using analyzeVideosWithGemini_results [OF analyzer_keepsId, of "videoModel sv" "GEMINI_API_KEY sv" gk fs p]
  by (auto simp: stageGemini_def Let_def split: if_splits option.splits)

lemma stageYoutube_total:
  "yt_totalInterviewsFound (fst (stageYoutube sv n k p)) = length (yt_interviews (fst (stageYoutube sv n k p)))"
  by (auto simp: stageYoutube_def researchGuest_def Let_def split: sum.splits if_splits)

section \<open>The run as a composition of its stages\<close>

lemma deepResearchBody_fields:
  fixes sv :: services and g c gk yk :: string and p :: bool
  defines "n \<equiv> fst (stageName sv g)"
    and "Y \<equiv> fst (stageYoutube sv (fst (stageName sv g)) yk p)"
  defines "T \<equiv> stageTranscripts sv (yt_interviews Y)"
  defines "G \<equiv> stageGemini sv gk p (fst (snd T))"
  defines "S \<equiv> stageSynthesis sv n c (fst T @ fst G)"
  defines "F \<equiv> stageFallback sv n c (yt_interviews Y) (sy_videoAnalysis S)"
  defines "R \<equiv> deepResearchBody sv g c gk yk p"
  shows "run_transcripts R = fst T"
    and "run_failedVideos R = fst (snd T)"
    and "run_geminiAnalyzed R = fst G"
    and "run_geminiCalls R = fst (snd G)"
    and "run_deepAttempts R = sy_attempts S"
    and "run_delays R = sy_delays S"
    and "run_metadataCalled R = fst (snd F)"
    and "run_deepAnalysis R = sy_videoAnalysis S"
    and "r_guestName (run_report R) = n"
    and "videoAnalysis (run_report R) = fst F"
    and "interviews (run_report R) = yt_interviews Y"
    and "totalInterviewsFound (run_report R) = yt_totalInterviewsFound Y"
    and "transcriptsAnalyzed (run_report R) = length (fst T) + length (fst G)"
    and "run_events R = snd (stageName sv g) @ snd (stageYoutube sv n yk p) @ snd (snd T)
           @ snd (snd G) @ sy_events S @ snd (snd F) @ snd (snd (stageWeb sv n))
           @ [(Compile, Active), (Compile, Done), (Complete, Done)]"
  by (simp_all add: assms deepResearchBody_def Let_def case_prod_beta)

text \<open>
  C2. In every run the report's \<open>transcriptsAnalyzed\<close> is the number of accepted
  transcripts plus the number of model-watched analyses; the video ids of the two lists
  together are pairwise distinct (so no video is in both, or twice in one) and are ids of
  videos of the report; and the count is at most \<open>totalInterviewsFound\<close>, which is the
  number of videos of the report.
\<close>

theorem analyzed_count:
  "transcriptsAnalyzed (run_report (deepResearch sv g c keys))
     = length (run_transcripts (deepResearch sv g c keys))
       + length (run_geminiAnalyzed (deepResearch sv g c keys))
   \<and> distinct (map t_videoId (run_transcripts (deepResearch sv g c keys)
                               @ run_geminiAnalyzed (deepResearch sv g c keys)))
   \<and> set (map t_videoId (run_transcripts (deepResearch sv g c keys)))
       \<inter> set (map t_videoId (run_geminiAnalyzed (deepResearch sv g c keys))) = {}
   \<and> set (map t_videoId (run_transcripts (deepResearch sv g c keys)
                          @ run_geminiAnalyzed (deepResearch sv g c keys)))
       \<subseteq> set (map videoId (interviews (run_report (deepResearch sv g c keys))))
   \<and> transcriptsAnalyzed (run_report (deepResearch sv g c keys))
       \<le> totalInterviewsFound (run_report (deepResearch sv g c keys))
   \<and> totalInterviewsFound (run_report (deepResearch sv g c keys))
       = length (interviews (run_report (deepResearch sv g c keys)))"
proof -
  define gk where "gk = stringField keys ''geminiApiKey''"
  define yk where "yk = stringField keys ''youtubeApiKey''"
  define p where "p = isProOf keys"
  define R where "R = deepResearchBody sv g c gk yk p"
  have R: "deepResearch sv g c keys = R"
    by (simp add: deepResearch_def Let_def R_def gk_def yk_def p_def)
  define Y where "Y = fst (stageYoutube sv (fst (stageName sv g)) yk p)"
  define T where "T = stageTranscripts sv (yt_interviews Y)"
  define G where "G = stageGemini sv gk p (fst (snd T))"
  obtain ts fs ev where T3: "stageTranscripts sv (yt_interviews Y) = (ts, fs, ev)"
    by (cases "stageTranscripts sv (yt_interviews Y)") auto
  obtain gs calls ev' where G3: "stageGemini sv gk p fs = (gs, calls, ev')"
    by (cases "stageGemini sv gk p fs") auto
  have fT: "fst T = ts" "fst (snd T) = fs" by (simp_all add: T_def T3)
  have fG: "fst G = gs" by (simp add: G_def fT G3)
  note f = deepResearchBody_fields [of sv g c gk yk p, folded R_def Y_def, folded T_def, folded G_def]
  have tr: "run_transcripts R = ts" and ga: "run_geminiAnalyzed R = gs"
    and iv: "interviews (run_report R) = yt_interviews Y"
    and tot: "totalInterviewsFound (run_report R) = yt_totalInterviewsFound Y"
    and cnt: "transcriptsAnalyzed (run_report R) = length ts + length gs"
    using f(1,3,11,12,13) fT fG by simp_all
  have dY: "distinct (map videoId (yt_interviews Y))"
    unfolding Y_def by (rule stageYoutube_distinct)
  note part = stageTranscripts_partition [OF dY T3]
  have sub: "subseq (map t_videoId gs) (map videoId fs)"
    by (rule stageGemini_subseq [OF G3])
  have gs_set: "set (map t_videoId gs) \<subseteq> set (map videoId fs)"
    by (rule subseq_set [OF sub])
  have gs_dist: "distinct (map t_videoId gs)"
    using sub part(1) subseq_distinct by auto
  have gs_len: "length gs \<le> length fs"
    using list_emb_length [OF sub] by simp
  have disj: "set (map t_videoId ts) \<inter> set (map t_videoId gs) = {}"
    using part(1) gs_set by auto
  have dist: "distinct (map t_videoId (ts @ gs))"
    using part(1) gs_dist disj by simp
  have incl: "set (map t_videoId (ts @ gs)) \<subseteq> set (map videoId (yt_interviews Y))"
  proof -
    have "set (map t_videoId ts) \<subseteq> set (map videoId (yt_interviews Y))"
      and "set (map videoId fs) \<subseteq> set (map videoId (yt_interviews Y))"
      using part(2) by blast+
    then have "set (map t_videoId ts) \<union> set (map t_videoId gs) \<subseteq> set (map videoId (yt_interviews Y))"
      using gs_set by blast
    then show ?thesis by simp
  qed
  have total: "yt_totalInterviewsFound Y = length (yt_interviews Y)"
    unfolding Y_def by (rule stageYoutube_total)
  have le: "length ts + length gs \<le> yt_totalInterviewsFound Y"
    using part(3) gs_len total by simp
  show ?thesis
    unfolding R tr ga iv tot cnt using dist disj incl le total by simp
qed

section \<open>A crash of the transcript stage\<close>

lemma stageTranscripts_crash:
  "ft_thrown (fetchTranscripts (fetchTranscript sv) ivs) \<noteq> None \<Longrightarrow>
   ivs \<noteq> []
   \<and> fst (stageTranscripts sv ivs) = []
   \<and> fst (snd (stageTranscripts sv ivs)) = ivs
   \<and> (Transcripts, Error) \<in> set (snd (snd (stageTranscripts sv ivs)))"
  by (cases "ivs = []") (auto simp: stageTranscripts_def fetchTranscripts_def Let_def)

lemma stageGemini_started:
  "fs \<noteq> [] \<Longrightarrow>
   fst (snd (stageGemini sv gk p fs)) =
     g_calls (analyzeVideosWithGemini (analyzeVideoWithGemini (videoModel sv) (GEMINI_API_KEY sv) gk) fs p)
   \<and> (GeminiVideo, Active) \<in> set (snd (snd (stageGemini sv gk p fs)))"
  by (simp add: stageGemini_def Let_def split: option.splits)

text \<open>
  C10. If \<open>fetchTranscripts\<close> throws, the run sends the error-status \<open>transcripts\<close>
  event, keeps no transcript, takes every found video as one without transcript, starts
  the model-watch stage on all of them (its calls are those of \<open>analyzeVideosWithGemini\<close>
  on the whole list of found videos), and ends with the \<open>complete\<close> event and a report.
\<close>

theorem transcript_crash_degrades:
  "ft_thrown (fetchTranscripts (fetchTranscript sv)
       (interviews (run_report (deepResearch sv g c keys)))) \<noteq> None \<Longrightarrow>
   (Transcripts, Error) \<in> set (run_events (deepResearch sv g c keys))
   \<and> run_transcripts (deepResearch sv g c keys) = []
   \<and> run_failedVideos (deepResearch sv g c keys) = interviews (run_report (deepResearch sv g c keys))
   \<and> run_failedVideos (deepResearch sv g c keys) \<noteq> []
   \<and> (GeminiVideo, Active) \<in> set (run_events (deepResearch sv g c keys))
   \<and> run_geminiCalls (deepResearch sv g c keys) =
       g_calls (analyzeVideosWithGemini
                 (analyzeVideoWithGemini (videoModel sv) (GEMINI_API_KEY sv)
                    (stringField keys ''geminiApiKey''))
                 (interviews (run_report (deepResearch sv g c keys))) (isProOf keys))
   \<and> last (run_events (deepResearch sv g c keys)) = (Complete, Done)
   \<and> transcriptsAnalyzed (run_report (deepResearch sv g c keys))
       = length (run_geminiAnalyzed (deepResearch sv g c keys))"
proof -
  define gk where "gk = stringField keys ''geminiApiKey''"
  define yk where "yk = stringField keys ''youtubeApiKey''"
  define p where "p = isProOf keys"
  define R where "R = deepResearchBody sv g c gk yk p"
  have R: "deepResearch sv g c keys = R"
    by (simp add: deepResearch_def Let_def R_def gk_def yk_def p_def)
  define Y where "Y = fst (stageYoutube sv (fst (stageName sv g)) yk p)"
  define T where "T = stageTranscripts sv (yt_interviews Y)"
  define G where "G = stageGemini sv gk p (fst (snd T))"
  note f = deepResearchBody_fields [of sv g c gk yk p, folded R_def Y_def, folded T_def, folded G_def]
  assume "ft_thrown (fetchTranscripts (fetchTranscript sv)
       (interviews (run_report (deepResearch sv g c keys)))) \<noteq> None"
  then have crash: "ft_thrown (fetchTranscripts (fetchTranscript sv) (yt_interviews Y)) \<noteq> None"
    unfolding R f(11) .
  from stageTranscripts_crash [OF crash]
  have t: "yt_interviews Y \<noteq> []" "fst T = []" "fst (snd T) = yt_interviews Y"
    "(Transcripts, Error) \<in> set (snd (snd T))"
    unfolding T_def by blast+
  from stageGemini_started [of "yt_interviews Y" sv gk p] t(1,3)
  have gm: "fst (snd G) = g_calls (analyzeVideosWithGemini
                 (analyzeVideoWithGemini (videoModel sv) (GEMINI_API_KEY sv) gk) (yt_interviews Y) p)"
    "(GeminiVideo, Active) \<in> set (snd (snd G))"
    unfolding G_def by simp_all
  show ?thesis
    unfolding R f using t gm by (simp add: gk_def p_def)
qed

lemma crash_interviews:
  "interviews (run_report (deepResearch crashServices ''Jane Doe'' [] Map.empty)) = [exampleVideo]"
proof -
  have name: "stageName crashServices ''Jane Doe'' =
      (''Jane Doe'', [(Start, Active), (NameCheck, Active), (NameCheck, Done)])"
    by code_simp
  have yt: "stageYoutube crashServices ''Jane Doe'' [] False =
      (\<lparr>yt_guestName = ''Jane Doe'', yt_totalInterviewsFound = 1, yt_interviews = [exampleVideo]\<rparr>,
       [(Youtube, Active), (Youtube, Done)])"
    by code_simp
  show ?thesis
    by (simp add: deepResearch_def Let_def deepResearchBody_fields name yt stringField_def isProOf_def)
qed

theorem transcript_crash_degrades_witness:
  "ft_thrown (fetchTranscripts (fetchTranscript crashServices)
       (interviews (run_report (deepResearch crashServices ''Jane Doe'' [] Map.empty))))
     = Some ''TypeError: Cannot read properties of null''
   \<and> (Transcripts, Error) \<in> set (run_events (deepResearch crashServices ''Jane Doe'' [] Map.empty))
   \<and> run_transcripts (deepResearch crashServices ''Jane Doe'' [] Map.empty) = []
   \<and> run_failedVideos (deepResearch crashServices ''Jane Doe'' [] Map.empty) = [exampleVideo]
   \<and> (GeminiVideo, Active) \<in> set (run_events (deepResearch crashServices ''Jane Doe'' [] Map.empty))
   \<and> last (run_events (deepResearch crashServices ''Jane Doe'' [] Map.empty)) = (Complete, Done)"
proof -
  have thrown: "ft_thrown (fetchTranscripts (fetchTranscript crashServices) [exampleVideo])
      = Some ''TypeError: Cannot read properties of null''"
    by code_simp
  then have hyp: "ft_thrown (fetchTranscripts (fetchTranscript crashServices)
       (interviews (run_report (deepResearch crashServices ''Jane Doe'' [] Map.empty)))) \<noteq> None"
    by (simp add: crash_interviews)
  from transcript_crash_degrades [OF hyp] thrown show ?thesis
    by (simp add: crash_interviews)
qed

section \<open>Quota exhaustion\<close>

lemma searchStep_quota_response:
  "isQuotaResponse (yt i q mr) \<Longrightarrow>
   allVideos (searchStep yt mr i q st) = allVideos st
   \<and> quotaErrors (searchStep yt mr i q st) = quotaErrors st + 1"
  by (auto simp: searchStep_def isQuotaResponse_def Let_def split: search_response.splits)

lemma searchLoop_all_quota:
  "(\<forall>i q. isQuotaResponse (yt i q mr)) \<Longrightarrow>
   allVideos (searchLoop yt mr cap mq i qs st) = allVideos st
   \<and> quotaErrors st \<le> quotaErrors (searchLoop yt mr cap mq i qs st)"
proof (induction qs arbitrary: i st)
  case Nil
  then show ?case by simp
next
  case (Cons q qs)
  from Cons.IH [of "Suc i" "searchStep yt mr i q st", OF Cons.prems]
    searchStep_quota_response [of yt i q mr st] Cons.prems
  show ?case by auto
qed

text \<open>
  When every search call fails on the quota (and a key is there), \<open>researchGuest\<close> throws
  the \<open>QUOTA_EXHAUSTED\<close> error.
\<close>

lemma researchGuest_quota_exhausted:
  assumes "\<forall>i q. isQuotaResponse (yt i q (maxResults p))" and "yk \<noteq> [] \<or> ek \<noteq> []"
  shows "researchGuest yt ek n yk p = Inl QUOTA_EXHAUSTED"
proof -
  obtain q qs where qs: "queries n p = q # qs"
    using length_queries [of n] by (cases "queries n p"; cases p) auto
  let ?st1 = "searchStep yt (maxResults p) 0 q initSearch"
  have mq: "0 < maxQuotaErrors n p"
    using qs by (auto simp: maxQuotaErrors_def)
  have cap: "\<not> capReached (maxVideoCap p) 0"
    by (simp add: capReached_def maxVideoCap_def)
  have run: "runSearch yt n p =
      searchLoop yt (maxResults p) (maxVideoCap p) (maxQuotaErrors n p) (Suc 0) qs ?st1"
    using mq cap by (simp add: runSearch_def qs initSearch_def)
  have st1: "allVideos ?st1 = []" "quotaErrors ?st1 = 1"
    using searchStep_quota_response [of yt 0 q "maxResults p" initSearch] assms(1)
    by (simp_all add: initSearch_def)
  from searchLoop_all_quota [of yt "maxResults p" "maxVideoCap p" "maxQuotaErrors n p" "Suc 0" qs ?st1,
      OF assms(1)]
  have "allVideos (runSearch yt n p) = []" "0 < quotaErrors (runSearch yt n p)"
    unfolding run using st1 by simp_all
  then show ?thesis
    using assms(2) by (auto simp: researchGuest_def Let_def)
qed

text \<open>
  C1 at the failing input: every search call fails on the quota. \<open>researchGuest\<close> throws
  \<open>QUOTA_EXHAUSTED\<close>, but the route still streams a complete run: the error is one
  \<open>youtube\<close> progress event, the web stage and the compilation follow, and the stream ends
  with a result, the report with no videos.
\<close>

theorem quota_exhausted_run_completes:
  "researchGuest (ytSearch quotaServices) (YOUTUBE_API_KEY quotaServices) ''Jane Doe'' [] False
     = Inl QUOTA_EXHAUSTED
   \<and> researchRoute quotaServices emptyStore ''user-1'' ''Jane Doe'' [] =
       Stream [(Start, Active), (NameCheck, Active), (NameCheck, Done), (Youtube, Active),
               (Youtube, Error), (WebSearch, Active), (WebSearch, Done), (Compile, Active),
               (Compile, Done), (Complete, Done)]
         \<lparr>r_guestName = ''Jane Doe'', originalQuery = ''Jane Doe'', correctedName = None,
          totalInterviewsFound = 0, transcriptsAnalyzed = 0, interviews = [],
          topicsSummary = [], videoAnalysis = [], webProfile = None\<rparr>"
proof -
  have msg: "isQuotaMessage ''The request cannot be completed because you have exceeded your quota.''"
    by code_simp
  have quota: "\<forall>i q. isQuotaResponse (ytSearch quotaServices i q (maxResults False))"
    by (simp add: quotaServices_def baseServices_def quotaYt_def isQuotaResponse_def msg)
  have key: "([]::string) \<noteq> [] \<or> YOUTUBE_API_KEY quotaServices \<noteq> []"
    by code_simp
  have rg: "researchGuest (ytSearch quotaServices) (YOUTUBE_API_KEY quotaServices) ''Jane Doe'' [] False
     = Inl QUOTA_EXHAUSTED"
    by (rule researchGuest_quota_exhausted [where yt = "ytSearch quotaServices" and p = False
          and yk = "[]" and ek = "YOUTUBE_API_KEY quotaServices", OF quota key])
  have keys: "getUserKeys emptyStore ''user-1'' = Map.empty"
    by (simp add: getUserKeys_def getApiKeys_def emptyStore_def)
  have name: "stageName quotaServices ''Jane Doe'' =
      (''Jane Doe'', [(Start, Active), (NameCheck, Active), (NameCheck, Done)])"
    by code_simp
  have yt: "stageYoutube quotaServices ''Jane Doe'' [] False =
      (\<lparr>yt_guestName = [], yt_totalInterviewsFound = 0, yt_interviews = []\<rparr>,
       [(Youtube, Active), (Youtube, Error)])"
    by (simp add: stageYoutube_def rg)
  have web: "stageWeb quotaServices ''Jane Doe'' = (None, None, [(WebSearch, Active), (WebSearch, Done)])"
    by code_simp
  have route: "researchRoute quotaServices emptyStore ''user-1'' ''Jane Doe'' [] =
       Stream [(Start, Active), (NameCheck, Active), (NameCheck, Done), (Youtube, Active),
               (Youtube, Error), (WebSearch, Active), (WebSearch, Done), (Compile, Active),
               (Compile, Done), (Complete, Done)]
         \<lparr>r_guestName = ''Jane Doe'', originalQuery = ''Jane Doe'', correctedName = None,
          totalInterviewsFound = 0, transcriptsAnalyzed = 0, interviews = [],
          topicsSummary = [], videoAnalysis = [], webProfile = None\<rparr>"
    by (simp add: researchRoute_def deepResearch_def deepResearchBody_def keys name yt web
          stringField_def isProOf_def stageTranscripts_def stageGemini_def stageSynthesis_def
          stageFallback_def combinedSummary_def)
  from rg route show ?thesis by simp
qed

section \<open>Corpus synthesis and its fallback\<close>

lemma deepLoop_closed:
  "sy_attempts (deepLoop call [1, 2, 3] st) =
     sy_attempts st @ 1 # (if isl (call 1) then 2 # (if isl (call 2) then [3] else []) else [])"
  "sy_delays (deepLoop call [1, 2, 3] st) =
     sy_delays st
     @ (if isl (call 1) \<and> isRateLimit (projl (call 1)) then [5000] else [])
     @ (if isl (call 1) \<and> isl (call 2) \<and> isRateLimit (projl (call 2)) then [10000] else [])"
  "sy_videoAnalysis (deepLoop call [1, 2, 3] st) =
     (if \<not> isl (call 1) then projr (call 1)
      else if \<not> isl (call 2) then projr (call 2)
      else if \<not> isl (call 3) then projr (call 3)
      else sy_videoAnalysis st)"
  by (cases "call 1"; cases "call 2"; cases "call 3"; simp add: Let_def)+

lemma stageSynthesis_closed:
  assumes "call = (\<lambda>a. deepAnalyzeTranscripts sv a n content c)"
  shows "content \<noteq> [] \<Longrightarrow>
      sy_attempts (stageSynthesis sv n c content) =
        1 # (if isl (call 1) then 2 # (if isl (call 2) then [3] else []) else [])
      \<and> sy_delays (stageSynthesis sv n c content) =
        (if isl (call 1) \<and> isRateLimit (projl (call 1)) then [5000] else [])
        @ (if isl (call 1) \<and> isl (call 2) \<and> isRateLimit (projl (call 2)) then [10000] else [])
      \<and> sy_videoAnalysis (stageSynthesis sv n c content) =
        (if \<not> isl (call 1) then projr (call 1)
         else if \<not> isl (call 2) then projr (call 2)
         else if \<not> isl (call 3) then projr (call 3)
         else [])"
    and "content = [] \<Longrightarrow>
      sy_attempts (stageSynthesis sv n c content) = []
      \<and> sy_delays (stageSynthesis sv n c content) = []
      \<and> sy_videoAnalysis (stageSynthesis sv n c content) = []"
proof -
  let ?init = "\<lparr>sy_videoAnalysis = [], sy_events = [(AnalyzeVideos, Active)], sy_attempts = [],
           sy_delays = []\<rparr>"
  assume "content \<noteq> []"
  then have S: "stageSynthesis sv n c content = deepLoop call [1, 2, 3] ?init"
    unfolding assms stageSynthesis_def by (rule if_P)
  show "sy_attempts (stageSynthesis sv n c content) =
        1 # (if isl (call 1) then 2 # (if isl (call 2) then [3] else []) else [])
      \<and> sy_delays (stageSynthesis sv n c content) =
        (if isl (call 1) \<and> isRateLimit (projl (call 1)) then [5000] else [])
        @ (if isl (call 1) \<and> isl (call 2) \<and> isRateLimit (projl (call 2)) then [10000] else [])
      \<and> sy_videoAnalysis (stageSynthesis sv n c content) =
        (if \<not> isl (call 1) then projr (call 1)
         else if \<not> isl (call 2) then projr (call 2)
         else if \<not> isl (call 3) then projr (call 3)
         else [])"
    unfolding S deepLoop_closed by simp
next
  assume "content = []"
  then show "sy_attempts (stageSynthesis sv n c content) = []
      \<and> sy_delays (stageSynthesis sv n c content) = []
      \<and> sy_videoAnalysis (stageSynthesis sv n c content) = []"
    by (simp add: stageSynthesis_def)
qed

lemma stageFallback_closed:
  "fst (snd (stageFallback sv n c ivs va)) \<longleftrightarrow> va = [] \<and> ivs \<noteq> []"
  "fst (stageFallback sv n c ivs va) \<noteq> [] \<longleftrightarrow>
     va \<noteq> [] \<or> (fst (snd (stageFallback sv n c ivs va))
                  \<and> (\<exists>t. analyzeVideoMetadata sv n ivs c = Inr t \<and> t \<noteq> []))"
  by (auto simp: stageFallback_def split: sum.splits)

text \<open>
  C4, as amended. The deep analysis is attempted at most three times: the loop stops at
  the first attempt that returns, and every failed attempt before the third is followed
  by the next one, whatever the error. A delay is waited only after a failure of attempt
  1 or 2 whose message contains \<open>429\<close>, \<open>quota\<close> or \<open>rate\<close>: 5 seconds after attempt 1 and
  10 seconds after attempt 2. With nothing to analyze no attempt is made. The metadata
  fallback is called exactly when the deep analysis left the text empty and at least one
  video was found. The report's \<open>videoAnalysis\<close> is non-empty if and only if the deep
  analysis returned a non-empty text or the fallback was called and returned one.
\<close>

theorem synthesis_retry_and_fallback:
  assumes "R = deepResearch sv g c keys"
    and "content = run_transcripts R @ run_geminiAnalyzed R"
    and "call = (\<lambda>a. deepAnalyzeTranscripts sv a (r_guestName (run_report R)) content c)"
    and "meta = analyzeVideoMetadata sv (r_guestName (run_report R)) (interviews (run_report R)) c"
  shows "(content \<noteq> [] \<longrightarrow>
            run_deepAttempts R = 1 # (if isl (call 1) then 2 # (if isl (call 2) then [3] else []) else [])
            \<and> run_delays R =
                (if isl (call 1) \<and> isRateLimit (projl (call 1)) then [5000] else [])
                @ (if isl (call 1) \<and> isl (call 2) \<and> isRateLimit (projl (call 2)) then [10000] else [])
            \<and> run_deepAnalysis R =
                (if \<not> isl (call 1) then projr (call 1)
                 else if \<not> isl (call 2) then projr (call 2)
                 else if \<not> isl (call 3) then projr (call 3)
                 else []))
         \<and> (content = [] \<longrightarrow> run_deepAttempts R = [] \<and> run_delays R = [] \<and> run_deepAnalysis R = [])
         \<and> (run_metadataCalled R \<longleftrightarrow> run_deepAnalysis R = [] \<and> interviews (run_report R) \<noteq> [])
         \<and> (videoAnalysis (run_report R) \<noteq> [] \<longleftrightarrow>
               run_deepAnalysis R \<noteq> [] \<or> (run_metadataCalled R \<and> (\<exists>t. meta = Inr t \<and> t \<noteq> [])))"
proof -
  define gk where "gk = stringField keys ''geminiApiKey''"
  define yk where "yk = stringField keys ''youtubeApiKey''"
  define p where "p = isProOf keys"
  have R: "R = deepResearchBody sv g c gk yk p"
    by (simp add: assms(1) deepResearch_def Let_def gk_def yk_def p_def)
  define n where "n = fst (stageName sv g)"
  define Y where "Y = fst (stageYoutube sv (fst (stageName sv g)) yk p)"
  define T where "T = stageTranscripts sv (yt_interviews Y)"
  define G where "G = stageGemini sv gk p (fst (snd T))"
  define S where "S = stageSynthesis sv n c (fst T @ fst G)"
  define F where "F = stageFallback sv n c (yt_interviews Y) (sy_videoAnalysis S)"
  note f = deepResearchBody_fields [of sv g c gk yk p, folded R n_def Y_def, folded T_def,
      folded G_def, folded S_def, folded F_def]
  have content: "content = fst T @ fst G" by (simp add: assms(2) f)
  have call: "call = (\<lambda>a. deepAnalyzeTranscripts sv a n content c)" by (simp add: assms(3) f)
  have meta: "meta = analyzeVideoMetadata sv n (yt_interviews Y) c" by (simp add: assms(4) f)
  have S: "S = stageSynthesis sv n c content" by (simp add: S_def content)
  note syn = stageSynthesis_closed [OF call]
  note fb = stageFallback_closed [of sv n c "yt_interviews Y" "sy_videoAnalysis S", folded F_def meta]
  show ?thesis
    unfolding f S using syn fb unfolding S [symmetric] by blast
qed

lemma rate_run:
  "run_transcripts (deepResearch rateServices ''Jane Doe'' [] Map.empty) = []"
  "run_geminiAnalyzed (deepResearch rateServices ''Jane Doe'' [] Map.empty) = [watchedRecord]"
  "r_guestName (run_report (deepResearch rateServices ''Jane Doe'' [] Map.empty)) = ''Jane Doe''"
proof -
  have name: "stageName rateServices ''Jane Doe'' =
      (''Jane Doe'', [(Start, Active), (NameCheck, Active), (NameCheck, Done)])"
    by code_simp
  have yt: "stageYoutube rateServices ''Jane Doe'' [] False =
      (\<lparr>yt_guestName = ''Jane Doe'', yt_totalInterviewsFound = 1, yt_interviews = [exampleVideo]\<rparr>,
       [(Youtube, Active), (Youtube, Done)])"
    by code_simp
  have tr: "stageTranscripts rateServices [exampleVideo] =
      ([], [exampleVideo], [(Transcripts, Active), (Transcripts, Active), (Transcripts, Done)])"
    by code_simp
  have gm: "stageGemini rateServices [] False [exampleVideo] =
      ([watchedRecord], [0], [(GeminiVideo, Active), (GeminiVideo, Active), (GeminiVideo, Done)])"
    by code_simp
  show "run_transcripts (deepResearch rateServices ''Jane Doe'' [] Map.empty) = []"
    "run_geminiAnalyzed (deepResearch rateServices ''Jane Doe'' [] Map.empty) = [watchedRecord]"
    "r_guestName (run_report (deepResearch rateServices ''Jane Doe'' [] Map.empty)) = ''Jane Doe''"
    by (simp_all add: deepResearch_def Let_def deepResearchBody_fields name yt tr gm
          stringField_def isProOf_def)
qed

theorem synthesis_retry_and_fallback_witness:
  "run_transcripts (deepResearch rateServices ''Jane Doe'' [] Map.empty)
     @ run_geminiAnalyzed (deepResearch rateServices ''Jane Doe'' [] Map.empty) \<noteq> []
   \<and> run_deepAttempts (deepResearch rateServices ''Jane Doe'' [] Map.empty) = [1, 2, 3]
   \<and> run_delays (deepResearch rateServices ''Jane Doe'' [] Map.empty) = [5000, 10000]
   \<and> run_deepAnalysis (deepResearch rateServices ''Jane Doe'' [] Map.empty) = ''Deep analysis''
   \<and> \<not> run_metadataCalled (deepResearch rateServices ''Jane Doe'' [] Map.empty)
   \<and> videoAnalysis (run_report (deepResearch rateServices ''Jane Doe'' [] Map.empty)) \<noteq> []"
proof -
  define R where "R = deepResearch rateServices ''Jane Doe'' [] Map.empty"
  define content where "content = run_transcripts R @ run_geminiAnalyzed R"
  define call where
    "call = (\<lambda>a. deepAnalyzeTranscripts rateServices a (r_guestName (run_report R)) content [])"
  define meta where
    "meta = analyzeVideoMetadata rateServices (r_guestName (run_report R)) (interviews (run_report R)) []"
  have content: "content \<noteq> []"
    by (simp add: content_def R_def rate_run)
  have c1: "call 1 = Inl ''429 Too Many Requests''"
    and c2: "call 2 = Inl ''You exceeded your current quota''"
    and c3: "call 3 = Inr ''Deep analysis''"
    by (simp_all add: call_def rateServices_def watchServices_def)
  have c1': "call (Suc 0) = Inl ''429 Too Many Requests''"
    using c1 by simp
  have r1: "isRateLimit ''429 Too Many Requests''" by code_simp
  have r2: "isRateLimit ''You exceeded your current quota''" by code_simp
  from synthesis_retry_and_fallback [OF R_def content_def call_def meta_def] content
  have "run_deepAttempts R = [1, 2, 3] \<and> run_delays R = [5000, 10000]
      \<and> run_deepAnalysis R = ''Deep analysis'' \<and> \<not> run_metadataCalled R
      \<and> videoAnalysis (run_report R) \<noteq> []"
    by (simp add: c1 c1' c2 c3 r1 r2)
  with content show ?thesis
    unfolding content_def R_def by simp
qed

lemma retry_run:
  "run_deepAttempts (deepResearch retryServices ''Jane Doe'' [] Map.empty) = [1, 2]"
  "run_delays (deepResearch retryServices ''Jane Doe'' [] Map.empty) = []"
  "videoAnalysis (run_report (deepResearch retryServices ''Jane Doe'' [] Map.empty)) = ''Deep analysis''"
proof -
  have name: "stageName retryServices ''Jane Doe'' =
      (''Jane Doe'', [(Start, Active), (NameCheck, Active), (NameCheck, Done)])"
    by code_simp
  have yt: "stageYoutube retryServices ''Jane Doe'' [] False =
      (\<lparr>yt_guestName = ''Jane Doe'', yt_totalInterviewsFound = 1, yt_interviews = [exampleVideo]\<rparr>,
       [(Youtube, Active), (Youtube, Done)])"
    by code_simp
  have tr: "stageTranscripts retryServices [exampleVideo] =
      ([], [exampleVideo], [(Transcripts, Active), (Transcripts, Active), (Transcripts, Done)])"
    by code_simp
  have gm: "stageGemini retryServices [] False [exampleVideo] =
      ([watchedRecord], [0], [(GeminiVideo, Active), (GeminiVideo, Active), (GeminiVideo, Done)])"
    by code_simp
  have sy: "stageSynthesis retryServices ''Jane Doe'' [] [watchedRecord] =
      \<lparr>sy_videoAnalysis = ''Deep analysis'',
       sy_events = [(AnalyzeVideos, Active), (AnalyzeVideos, Done)],
       sy_attempts = [1, 2], sy_delays = []\<rparr>"
    by code_simp
  have fb: "stageFallback retryServices ''Jane Doe'' [] [exampleVideo] ''Deep analysis'' =
      (''Deep analysis'', False, [])"
    by code_simp
  show "run_deepAttempts (deepResearch retryServices ''Jane Doe'' [] Map.empty) = [1, 2]"
    "run_delays (deepResearch retryServices ''Jane Doe'' [] Map.empty) = []"
    "videoAnalysis (run_report (deepResearch retryServices ''Jane Doe'' [] Map.empty)) = ''Deep analysis''"
    by (simp_all add: deepResearch_def Let_def deepResearchBody_fields name yt tr gm sy fb
          stringField_def isProOf_def)
qed

lemma emptyText_run:
  "run_deepAttempts (deepResearch emptyTextServices ''Jane Doe'' [] Map.empty) = [1]"
  "run_metadataCalled (deepResearch emptyTextServices ''Jane Doe'' [] Map.empty)"
  "videoAnalysis (run_report (deepResearch emptyTextServices ''Jane Doe'' [] Map.empty)) = []"
proof -
  have name: "stageName emptyTextServices ''Jane Doe'' =
      (''Jane Doe'', [(Start, Active), (NameCheck, Active), (NameCheck, Done)])"
    by code_simp
  have yt: "stageYoutube emptyTextServices ''Jane Doe'' [] False =
      (\<lparr>yt_guestName = ''Jane Doe'', yt_totalInterviewsFound = 1, yt_interviews = [exampleVideo]\<rparr>,
       [(Youtube, Active), (Youtube, Done)])"
    by code_simp
  have tr: "stageTranscripts emptyTextServices [exampleVideo] =
      ([], [exampleVideo], [(Transcripts, Active), (Transcripts, Active), (Transcripts, Done)])"
    by code_simp
  have gm: "stageGemini emptyTextServices [] False [exampleVideo] =
      ([watchedRecord], [0], [(GeminiVideo, Active), (GeminiVideo, Active), (GeminiVideo, Done)])"
    by code_simp
  have sy: "stageSynthesis emptyTextServices ''Jane Doe'' [] [watchedRecord] =
      \<lparr>sy_videoAnalysis = [],
       sy_events = [(AnalyzeVideos, Active), (AnalyzeVideos, Done)],
       sy_attempts = [1], sy_delays = []\<rparr>"
    by code_simp
  have fb: "stageFallback emptyTextServices ''Jane Doe'' [] [exampleVideo] [] =
      ([], True, [(AnalyzeVideos, Active), (AnalyzeVideos, Done)])"
    by code_simp
  show "run_deepAttempts (deepResearch emptyTextServices ''Jane Doe'' [] Map.empty) = [1]"
    "run_metadataCalled (deepResearch emptyTextServices ''Jane Doe'' [] Map.empty)"
    "videoAnalysis (run_report (deepResearch emptyTextServices ''Jane Doe'' [] Map.empty)) = []"
    by (simp_all add: deepResearch_def Let_def deepResearchBody_fields name yt tr gm sy fb
          stringField_def isProOf_def)
qed

text \<open>
  C4 as stated fails twice. An error that is not a rate limit is retried: the first deep
  analysis fails on \<open>500 Internal error\<close> and a second attempt is made, at once. And a
  call that succeeds may return the empty text: both calls return, and the report's
  \<open>videoAnalysis\<close> is empty.
\<close>

theorem synthesis_retry_counterexample:
  "deepAnalyzeTranscripts retryServices 1 ''Jane Doe'' [watchedRecord] [] = Inl ''500 Internal error''
   \<and> \<not> isRateLimit ''500 Internal error''
   \<and> run_deepAttempts (deepResearch retryServices ''Jane Doe'' [] Map.empty) = [1, 2]
   \<and> run_delays (deepResearch retryServices ''Jane Doe'' [] Map.empty) = []
   \<and> videoAnalysis (run_report (deepResearch retryServices ''Jane Doe'' [] Map.empty)) = ''Deep analysis''
   \<and> deepAnalyzeTranscripts emptyTextServices 1 ''Jane Doe'' [watchedRecord] [] = Inr []
   \<and> analyzeVideoMetadata emptyTextServices ''Jane Doe'' [exampleVideo] [] = Inr []
   \<and> run_deepAttempts (deepResearch emptyTextServices ''Jane Doe'' [] Map.empty) = [1]
   \<and> run_metadataCalled (deepResearch emptyTextServices ''Jane Doe'' [] Map.empty)
   \<and> videoAnalysis (run_report (deepResearch emptyTextServices ''Jane Doe'' [] Map.empty)) = []"
proof -
  have a: "deepAnalyzeTranscripts retryServices 1 ''Jane Doe'' [watchedRecord] [] = Inl ''500 Internal error''"
    by (simp add: retryServices_def watchServices_def)
  have b: "\<not> isRateLimit ''500 Internal error''"
    by code_simp
  have c: "deepAnalyzeTranscripts emptyTextServices 1 ''Jane Doe'' [watchedRecord] [] = Inr []"
    "analyzeVideoMetadata emptyTextServices ''Jane Doe'' [exampleVideo] [] = Inr []"
    by (simp_all add: emptyTextServices_def watchServices_def)
  from a b c retry_run emptyText_run show ?thesis by simp
qed

end
